theory Spec2Isabelle
  imports Main "HOL-Library.Sublist"
begin

section \<open>Strings and class attributes\<close>

text \<open>
  A JavaScript string is modelled as a \<open>string\<close> whose characters are its code units;
  only code units below 256 can be written, which covers every character the source
  itself tests for. The \<^verbatim>\<open>class\<close> attribute of an element is the string that
  \<^verbatim>\<open>className\<close> reads and writes; \<^verbatim>\<open>classList\<close> works on the same string through
  the DOM's ordered-set parser and serializer.
\<close>

text \<open>ASCII whitespace of the DOM standard: TAB, LF, FF, CR and SPACE.\<close>

definition ascii_ws :: "char \<Rightarrow> bool" where
  "ascii_ws c = (c = CHR 0x09 \<or> c = CHR 0x0A \<or> c = CHR 0x0C \<or> c = CHR 0x0D \<or> c = CHR '' '')"

text \<open>Split on ASCII whitespace; \<open>cur\<close> is the token being read.\<close>

fun split_ws_aux :: "string \<Rightarrow> string \<Rightarrow> string list" where
  "split_ws_aux cur [] = (if cur = [] then [] else [cur])"
| "split_ws_aux cur (c # cs) =
     (if ascii_ws c then (if cur = [] then split_ws_aux [] cs else cur # split_ws_aux [] cs)
      else split_ws_aux (cur @ [c]) cs)"

definition split_ws :: "string \<Rightarrow> string list" where
  "split_ws s = split_ws_aux [] s"

text \<open>The ordered-set parser keeps the first occurrence of every token.\<close>

definition ordered_set :: "string list \<Rightarrow> string list" where
  "ordered_set ts = rev (remdups (rev ts))"

text \<open>The ordered-set serializer: the tokens joined by single spaces.\<close>

fun join_sp :: "string list \<Rightarrow> string" where
  "join_sp [] = []"
| "join_sp [t] = t"
| "join_sp (t # ts) = t @ '' '' @ join_sp ts"

definition token_set :: "string \<Rightarrow> string list" where
  "token_set cls = ordered_set (split_ws cls)"

text \<open>\<^verbatim>\<open>el.classList.remove(tok)\<close> and \<^verbatim>\<open>el.classList.add(tok)\<close>, as the new class string.\<close>

definition classList_remove :: "string \<Rightarrow> string \<Rightarrow> string" where
  "classList_remove cls tok = join_sp (filter (\<lambda>t. t \<noteq> tok) (token_set cls))"

definition classList_add :: "string \<Rightarrow> string \<Rightarrow> string" where
  "classList_add cls tok =
     (let ts = token_set cls in join_sp (if tok \<in> set ts then ts else ts @ [tok]))"

text \<open>
  Whether an element carries a class: \<^verbatim>\<open>classList.contains\<close>, a \<^verbatim>\<open>.tok\<close> selector,
  membership in \<^verbatim>\<open>getElementsByClassName(tok)\<close>. Class names are compared exactly, as
  in a document that is not in quirks mode.
\<close>

definition has_class :: "string \<Rightarrow> string \<Rightarrow> bool" where
  "has_class cls tok = (tok \<in> set (split_ws cls))"

text \<open>
  \<^verbatim>\<open>s.replace(pat, rep)\<close> with a string pattern: only the first occurrence is replaced
  (the replacements used by the source contain no \<^verbatim>\<open>$\<close>).
\<close>

fun replace_first :: "string \<Rightarrow> string \<Rightarrow> string \<Rightarrow> string" where
  "replace_first pat rep [] = (if pat = [] then rep else [])"
| "replace_first pat rep (c # cs) =
     (if prefix pat (c # cs) then rep @ drop (length pat) (c # cs)
      else c # replace_first pat rep cs)"

text \<open>
  White space and line terminators of ECMAScript below code unit 256, as
  \<^verbatim>\<open>String.prototype.trim\<close> strips them: TAB, LF, VT, FF, CR, SPACE and NBSP.
\<close>

definition js_ws :: "char \<Rightarrow> bool" where
  "js_ws c = (c = CHR 0x09 \<or> c = CHR 0x0A \<or> c = CHR 0x0B \<or> c = CHR 0x0C \<or> c = CHR 0x0D
              \<or> c = CHR '' '' \<or> c = CHR 0xA0)"

definition js_trim :: "string \<Rightarrow> string" where
  "js_trim s = rev (dropWhile js_ws (rev (dropWhile js_ws s)))"

text \<open>\<^verbatim>\<open>xs[i]\<close> on a collection: \<^verbatim>\<open>undefined\<close> (\<open>None\<close>) outside \<open>0 .. length - 1\<close>.\<close>

definition nth_opt :: "'a list \<Rightarrow> int \<Rightarrow> 'a option" where
  "nth_opt xs i = (if 0 \<le> i \<and> i < int (length xs) then Some (xs ! nat i) else None)"

text \<open>The index of the first element that satisfies a predicate.\<close>

fun find_index_opt :: "('a \<Rightarrow> bool) \<Rightarrow> 'a list \<Rightarrow> nat option" where
  "find_index_opt P [] = None"
| "find_index_opt P (x # xs) = (if P x then Some 0 else map_option Suc (find_index_opt P xs))"

section \<open>The page of a form wizard\<close>

text \<open>
  The wizards read the document through \<^verbatim>\<open>getElementsByClassName('tab')\<close>,
  \<^verbatim>\<open>getElementsByClassName('step')\<close>, \<^verbatim>\<open>getElementById\<close> and selectors over form
  fields, so the page is modelled by what these calls can see:
  \<^item> the tabs in document order, each with its \<^verbatim>\<open>style.display\<close> and the
    \<^verbatim>\<open>input\<close>, \<^verbatim>\<open>select\<close> and \<^verbatim>\<open>textarea\<close> elements inside it;
  \<^item> the class string of every element of \<^verbatim>\<open>getElementsByClassName('step')\<close>, in
    document order;
  \<^item> the \<^verbatim>\<open>prevBtn\<close> and \<^verbatim>\<open>nextBtn\<close> elements, when present;
  \<^item> the form fields of the document that lie outside every tab;
  \<^item> whether the form to submit exists;
  \<^item> the script's variable \<^verbatim>\<open>currentTab\<close>.
  The collection of tabs does not change while the scripts run: no script writes the
  class of a tab. The collection of step-indicator elements is live, and the two
  \<^verbatim>\<open>fixStepIndicator\<close> functions that write \<^verbatim>\<open>className\<close> can take the class
  \<^verbatim>\<open>step\<close> away from an element; such an element leaves the collection, no script
  sees it again, and it is dropped from the page.
  Two more components record effects that leave no mark in the document: the element
  last given the focus, and the sequence of calls to \<^verbatim>\<open>showTab\<close> and
  \<^verbatim>\<open>form.submit\<close>.
\<close>

datatype tag = Input | Select | Textarea

record field =
  tag :: tag
  ftype :: string
  name_attr :: "string option"
  required :: bool
  fvalue :: string
  checked :: bool
  fclass :: string

record tab =
  display :: string
  inputs :: "field list"

datatype call = ShowTab int | Submit

record page =
  tabs :: "tab list"
  steps :: "string list"
  prevBtn :: "string option"
  nextBtn :: "string option"
  others :: "field list"
  has_form :: bool
  currentTab :: int
  focused :: "(nat \<times> nat) option"
  calls :: "call list"

text \<open>
  A call either returns a value (the wizards return \<^verbatim>\<open>true\<close>, \<^verbatim>\<open>false\<close> or
  \<^verbatim>\<open>undefined\<close>) or throws a \<^verbatim>\<open>TypeError\<close> on reading a property of
  \<^verbatim>\<open>undefined\<close> or \<^verbatim>\<open>null\<close>; the page it leaves behind is returned in both cases.
\<close>

datatype jsval = JTrue | JFalse | JUndefined

datatype outcome = Return jsval | Throw

text \<open>The \<^verbatim>\<open>name\<close> property of a field: the attribute, or the empty string.\<close>

definition name_prop :: "field \<Rightarrow> string" where
  "name_prop f = (case name_attr f of None \<Rightarrow> [] | Some n \<Rightarrow> n)"

text \<open>
  The student wizard finds the radio buttons of a group with the selector
  \<^verbatim>\<open>'input[name="' + name + '"]'\<close>, the name spliced in as it is. When the name holds
  no double quote, backslash, line break (LF, FF, CR) or NUL, the selector's string is
  the name itself and the selector matches the \<^verbatim>\<open>input\<close> elements whose \<^verbatim>\<open>name\<close>
  attribute is present and equal to it: this is \<open>in_group\<close>. For any other name the
  selector is a different one (it can be a syntax error, or match the elements of other
  names); \<open>in_group\<close> does not describe it, and what is proved of the radio groups is
  proved for pages whose required radio buttons of the current step have plain names
  (\<open>radio_names_plain\<close>).
\<close>

definition in_group :: "string \<Rightarrow> field \<Rightarrow> bool" where
  "in_group nm f = (tag f = Input \<and> name_attr f = Some nm)"

definition plain_char :: "char \<Rightarrow> bool" where
  "plain_char c = (c \<noteq> CHR 0x22 \<and> c \<noteq> CHR 0x5C \<and> c \<noteq> CHR 0x0A \<and> c \<noteq> CHR 0x0C \<and> c \<noteq> CHR 0x0D
                   \<and> c \<noteq> CHR 0x00)"

definition plain_name :: "string \<Rightarrow> bool" where
  "plain_name nm = list_all plain_char nm"

text \<open>Every required radio button of the current step has a plain name.\<close>

definition radio_names_plain :: "page \<Rightarrow> bool" where
  "radio_names_plain p =
     (case nth_opt (tabs p) (currentTab p) of
        None \<Rightarrow> True
      | Some tb \<Rightarrow>
          list_all (\<lambda>f. required f \<and> ftype f = ''radio'' \<longrightarrow> plain_name (name_prop f)) (inputs tb))"

text \<open>Every form field of the document.\<close>

definition all_fields :: "page \<Rightarrow> field list" where
  "all_fields p = concat (map inputs (tabs p)) @ others p"

definition remove_invalid :: "field \<Rightarrow> field" where
  "remove_invalid f = f\<lparr>fclass := classList_remove (fclass f) ''invalid''\<rparr>"

definition add_invalid :: "field \<Rightarrow> field" where
  "add_invalid f = f\<lparr>fclass := classList_add (fclass f) ''invalid''\<rparr>"

text \<open>Apply \<open>g\<close> to field \<open>i\<close> of tab \<open>t\<close>.\<close>

definition update_field :: "nat \<Rightarrow> nat \<Rightarrow> (field \<Rightarrow> field) \<Rightarrow> page \<Rightarrow> page" where
  "update_field t i g p =
     p\<lparr>tabs := (tabs p)[t := (tabs p ! t)\<lparr>inputs := (inputs (tabs p ! t))[i := g (inputs (tabs p ! t) ! i)]\<rparr>]\<rparr>"

text \<open>Apply \<open>g\<close> to every form field of the document.\<close>

definition map_fields :: "(field \<Rightarrow> field) \<Rightarrow> page \<Rightarrow> page" where
  "map_fields g p =
     p\<lparr>tabs := map (\<lambda>t. t\<lparr>inputs := map g (inputs t)\<rparr>) (tabs p), others := map g (others p)\<rparr>"

definition hide_tab :: "tab \<Rightarrow> tab" where
  "hide_tab t = t\<lparr>display := ''none''\<rparr>"

section \<open>The student and teacher wizards (add_student.js 1-96, flag_student.js 90-175)\<close>

text \<open>
  \<^verbatim>\<open>showTab\<close> and \<^verbatim>\<open>nextPrev\<close> of the two files are the same text but for the id of
  the form, so they are defined once, over the file's own \<^verbatim>\<open>validateForm\<close> and
  \<^verbatim>\<open>fixStepIndicator\<close>.
\<close>

definition showTab :: "(int \<Rightarrow> page \<Rightarrow> page) \<Rightarrow> int \<Rightarrow> page \<Rightarrow> outcome \<times> page" where
  "showTab fixStep n p =
     (let p0 = p\<lparr>calls := calls p @ [ShowTab n]\<rparr> in
      if tabs p0 = [] then (Return JUndefined, p0)
      else
        let p1 = p0\<lparr>tabs := map hide_tab (tabs p0)\<rparr> in
        if \<not> (0 \<le> n \<and> n < int (length (tabs p1))) then (Throw, p1)
        else
          let p2 = p1\<lparr>tabs := (tabs p1)[nat n := (tabs p1 ! nat n)\<lparr>display := ''block''\<rparr>]\<rparr>;
              p3 = p2\<lparr>prevBtn := map_option (\<lambda>_. if n = 0 then ''none'' else ''inline'') (prevBtn p2)\<rparr>;
              p4 = p3\<lparr>nextBtn := map_option (\<lambda>_. if n = int (length (tabs p3)) - 1 then ''Submit'' else ''Next'')
                                              (nextBtn p3)\<rparr>
          in (Return JUndefined, fixStep n p4))"

definition nextPrev ::
  "(page \<Rightarrow> bool \<times> page) \<Rightarrow> (int \<Rightarrow> page \<Rightarrow> page) \<Rightarrow> int \<Rightarrow> page \<Rightarrow> outcome \<times> page" where
  "nextPrev validate fixStep n p =
     (let (valid, p1) = (if n = 1 then validate p else (True, p)) in
      if n = 1 \<and> \<not> valid then (Return JFalse, p1)
      else
        let p2 = (case nth_opt (tabs p1) (currentTab p1) of
                    None \<Rightarrow> p1
                  | Some t \<Rightarrow> p1\<lparr>tabs := (tabs p1)[nat (currentTab p1) := hide_tab t]\<rparr>);
            p3 = p2\<lparr>currentTab := currentTab p2 + n\<rparr>
        in
          if currentTab p3 \<ge> int (length (tabs p3))
          then (Return JFalse, if has_form p3 then p3\<lparr>calls := calls p3 @ [Submit]\<rparr> else p3)
          else showTab fixStep (currentTab p3) p3)"

subsection \<open>add_student.js, lines 50-95\<close>

text \<open>
  One round of the loop of \<^verbatim>\<open>validateForm\<close> over the fields of tab \<open>t\<close>: the state is
  the variable \<^verbatim>\<open>valid\<close> and the page.
\<close>

definition validate_field_student :: "nat \<Rightarrow> nat \<Rightarrow> bool \<times> page \<Rightarrow> bool \<times> page" where
  "validate_field_student t i vp =
     (let (valid, p) = vp;
          p1 = update_field t i remove_invalid p;
          input = inputs (tabs p1 ! t) ! i
      in
        if required input then
          if ftype input = ''radio'' then
            let nm = name_prop input;
                anyChecked = list_ex (\<lambda>r. in_group nm r \<and> checked r) (all_fields p1)
            in if \<not> anyChecked
               then (False, map_fields (\<lambda>r. if in_group nm r then add_invalid r else r) p1)
               else (valid, p1)
          else if fvalue input = [] \<or> js_trim (fvalue input) = []
          then (False, update_field t i add_invalid p1)
          else (valid, p1)
        else (valid, p1))"

definition focus_first_invalid :: "nat \<Rightarrow> page \<Rightarrow> page" where
  "focus_first_invalid t p =
     (case find_index_opt (\<lambda>f. has_class (fclass f) ''invalid'') (inputs (tabs p ! t)) of
        None \<Rightarrow> p
      | Some i \<Rightarrow> p\<lparr>focused := Some (t, i)\<rparr>)"

definition validateForm_student :: "page \<Rightarrow> bool \<times> page" where
  "validateForm_student p =
     (case nth_opt (tabs p) (currentTab p) of
        None \<Rightarrow> (True, p)
      | Some tb \<Rightarrow>
          let t = nat (currentTab p);
              (valid, p1) = fold (validate_field_student t) [0..<length (inputs tb)] (True, p)
          in (valid, focus_first_invalid t p1))"

text \<open>
  The loop of \<^verbatim>\<open>fixStepIndicator\<close> (lines 91-93, and 163-165 of the registration
  wizard) runs over the live collection \<^verbatim>\<open>getElementsByClassName('step')\<close> with an
  index. An entry whose new class string still holds the class \<^verbatim>\<open>step\<close> stays, and
  the loop goes on to the next. An entry whose new class string has lost the class
  (\<^verbatim>\<open>"step activeX"\<close> becomes \<^verbatim>\<open>"stepX"\<close>) leaves the collection at once: the entries
  behind it move down by one, so the index, raised by one, passes over the entry that
  followed it, which keeps its class string. The result is the collection after the
  loop.
\<close>

fun clear_active :: "string list \<Rightarrow> string list" where
  "clear_active [] = []"
| "clear_active [c] =
     (let c' = replace_first '' active'' [] c in if has_class c' ''step'' then [c'] else [])"
| "clear_active (c # d # cs) =
     (let c' = replace_first '' active'' [] c in
      if has_class c' ''step'' then c' # clear_active (d # cs) else d # clear_active cs)"

definition fixStepIndicator_student :: "int \<Rightarrow> page \<Rightarrow> page" where
  "fixStepIndicator_student n p =
     (let cleared = clear_active (steps p) in
      p\<lparr>steps := (case nth_opt cleared n of
                     None \<Rightarrow> cleared
                   | Some c \<Rightarrow> cleared[nat n := c @ '' active''])\<rparr>)"

definition showTab_student :: "int \<Rightarrow> page \<Rightarrow> outcome \<times> page" where
  "showTab_student = showTab fixStepIndicator_student"

definition nextPrev_student :: "int \<Rightarrow> page \<Rightarrow> outcome \<times> page" where
  "nextPrev_student = nextPrev validateForm_student fixStepIndicator_student"

subsection \<open>flag_student.js, lines 139-174\<close>

text \<open>
  The loop of this \<^verbatim>\<open>validateForm\<close> touches each field of the tab on its own, so it is
  a \<open>map\<close> over the fields, and \<^verbatim>\<open>valid\<close> ends false exactly when some round sets it.
\<close>

definition validate_field_teacher :: "field \<Rightarrow> field" where
  "validate_field_teacher input =
     (if required input \<and> fvalue input = [] then add_invalid (remove_invalid input)
      else remove_invalid input)"

definition validateForm_teacher :: "page \<Rightarrow> bool \<times> page" where
  "validateForm_teacher p =
     (case nth_opt (tabs p) (currentTab p) of
        None \<Rightarrow> (True, p)
      | Some tb \<Rightarrow>
          let t = nat (currentTab p);
              valid = \<not> list_ex (\<lambda>input. required input \<and> fvalue input = []) (inputs tb);
              p1 = p\<lparr>tabs := (tabs p)[t := tb\<lparr>inputs := map validate_field_teacher (inputs tb)\<rparr>]\<rparr>
          in
            if valid then
              (True, case nth_opt (steps p1) (currentTab p1) of
                       None \<Rightarrow> p1
                     | Some c \<Rightarrow> p1\<lparr>steps := (steps p1)[t := classList_add c ''finish'']\<rparr>)
            else (False, p1))"

definition fixStepIndicator_teacher :: "int \<Rightarrow> page \<Rightarrow> page" where
  "fixStepIndicator_teacher n p =
     (let cleared = map (\<lambda>c. classList_remove c ''active'') (steps p) in
      p\<lparr>steps := (case nth_opt cleared n of
                     None \<Rightarrow> cleared
                   | Some c \<Rightarrow> cleared[nat n := classList_add c ''active''])\<rparr>)"

definition showTab_teacher :: "int \<Rightarrow> page \<Rightarrow> outcome \<times> page" where
  "showTab_teacher = showTab fixStepIndicator_teacher"

definition nextPrev_teacher :: "int \<Rightarrow> page \<Rightarrow> outcome \<times> page" where
  "nextPrev_teacher = nextPrev validateForm_teacher fixStepIndicator_teacher"

section \<open>The registration wizard (add_student.js, lines 97-168)\<close>

text \<open>
  This variant checks no element for existence: reading \<^verbatim>\<open>x[n].style\<close>,
  \<^verbatim>\<open>getElementById(...).style\<close> and the like throws where the element is missing, and
  what was written before stays written.
\<close>

definition fixStepIndicator_reg :: "int \<Rightarrow> page \<Rightarrow> outcome \<times> page" where
  "fixStepIndicator_reg n p =
     (let cleared = clear_active (steps p) in
      case nth_opt cleared n of
        None \<Rightarrow> (Throw, p\<lparr>steps := cleared\<rparr>)
      | Some c \<Rightarrow> (Return JUndefined, p\<lparr>steps := cleared[nat n := c @ '' active'']\<rparr>))"

definition showTab_reg :: "int \<Rightarrow> page \<Rightarrow> outcome \<times> page" where
  "showTab_reg n p =
     (let p0 = p\<lparr>calls := calls p @ [ShowTab n]\<rparr> in
      case nth_opt (tabs p0) n of
        None \<Rightarrow> (Throw, p0)
      | Some tb \<Rightarrow>
          let p1 = p0\<lparr>tabs := (tabs p0)[nat n := tb\<lparr>display := ''block''\<rparr>]\<rparr> in
          case prevBtn p1 of
            None \<Rightarrow> (Throw, p1)
          | Some _ \<Rightarrow>
              let p2 = p1\<lparr>prevBtn := Some (if n = 0 then ''none'' else ''inline'')\<rparr> in
              case nextBtn p2 of
                None \<Rightarrow> (Throw, p2)
              | Some _ \<Rightarrow>
                  fixStepIndicator_reg n
                    (p2\<lparr>nextBtn := Some (if n = int (length (tabs p2)) - 1 then ''Submit'' else ''Next'')\<rparr>))"

definition validate_field_reg :: "field \<Rightarrow> field" where
  "validate_field_reg y = (if fvalue y = [] then y\<lparr>fclass := fclass y @ '' invalid''\<rparr> else y)"

definition validateForm_reg :: "page \<Rightarrow> outcome \<times> page" where
  "validateForm_reg p =
     (case nth_opt (tabs p) (currentTab p) of
        None \<Rightarrow> (Throw, p)
      | Some tb \<Rightarrow>
          let t = nat (currentTab p);
              valid = \<not> list_ex (\<lambda>y. tag y = Input \<and> fvalue y = []) (inputs tb);
              p1 = p\<lparr>tabs := (tabs p)[t := tb\<lparr>inputs := map (\<lambda>y. if tag y = Input then validate_field_reg y else y)
                                                            (inputs tb)\<rparr>]\<rparr>
          in
            if valid then
              (case nth_opt (steps p1) (currentTab p1) of
                 None \<Rightarrow> (Throw, p1)
               | Some c \<Rightarrow> (Return JTrue, p1\<lparr>steps := (steps p1)[t := c @ '' finish'']\<rparr>))
            else (Return JFalse, p1))"

definition nextPrev_reg :: "int \<Rightarrow> page \<Rightarrow> outcome \<times> page" where
  "nextPrev_reg n p =
     (let (r, p1) = (if n = 1 then validateForm_reg p else (Return JTrue, p)) in
      if r = Throw then (Throw, p1)
      else if n = 1 \<and> r \<noteq> Return JTrue then (Return JFalse, p1)
      else
        case nth_opt (tabs p1) (currentTab p1) of
          None \<Rightarrow> (Throw, p1)
        | Some tb \<Rightarrow>
            let p2 = p1\<lparr>tabs := (tabs p1)[nat (currentTab p1) := hide_tab tb]\<rparr>;
                p3 = p2\<lparr>currentTab := currentTab p2 + n\<rparr>
            in
              if currentTab p3 \<ge> int (length (tabs p3))
              then (if has_form p3 then (Return JFalse, p3\<lparr>calls := calls p3 @ [Submit]\<rparr>)
                    else (Throw, p3))
              else showTab_reg (currentTab p3) p3)"

section \<open>Page load and the user's moves\<close>

text \<open>
  Lines 2-3 of both files, run on \<^verbatim>\<open>DOMContentLoaded\<close>: \<^verbatim>\<open>currentTab\<close> is set to 0 and
  the first tab is shown. The record of calls starts here.
\<close>

definition load_page :: "(int \<Rightarrow> page \<Rightarrow> page) \<Rightarrow> page \<Rightarrow> outcome \<times> page" where
  "load_page fixStep p = showTab fixStep 0 (p\<lparr>currentTab := 0, calls := []\<rparr>)"

text \<open>The wizard is active until it has submitted the form.\<close>

definition wizard_active :: "page \<Rightarrow> bool" where
  "wizard_active p = (Submit \<notin> set (calls p))"

text \<open>The previous control can be pressed when it exists and is not hidden.\<close>

definition prev_shown :: "page \<Rightarrow> bool" where
  "prev_shown p = (case prevBtn p of None \<Rightarrow> False | Some d \<Rightarrow> d \<noteq> ''none'')"

text \<open>
  What the user does to the fields between two presses: the fields of every tab and
  the fields outside the tabs are replaced by any others.
\<close>

definition user_edit :: "field list list \<Rightarrow> field list \<Rightarrow> page \<Rightarrow> page" where
  "user_edit fss os p =
     p\<lparr>tabs := map2 (\<lambda>t fs. t\<lparr>inputs := fs\<rparr>) (tabs p) fss, others := os\<rparr>"

text \<open>
  The pages a wizard can be in: after the load, after an edit of the fields, after a
  press of the next control (\<^verbatim>\<open>nextPrev(1)\<close>), and after a press of the previous
  control (\<^verbatim>\<open>nextPrev(-1)\<close>) where that control is shown. Nothing is pressed once the
  form is submitted.
\<close>

inductive reachable ::
  "(page \<Rightarrow> bool \<times> page) \<Rightarrow> (int \<Rightarrow> page \<Rightarrow> page) \<Rightarrow> page \<Rightarrow> page \<Rightarrow> bool"
  for validate :: "page \<Rightarrow> bool \<times> page" and fixStep :: "int \<Rightarrow> page \<Rightarrow> page" and p0 :: page
  where
    loaded: "reachable validate fixStep p0 (snd (load_page fixStep p0))"
  | edited: "reachable validate fixStep p0 p \<Longrightarrow> wizard_active p \<Longrightarrow> length fss = length (tabs p)
             \<Longrightarrow> reachable validate fixStep p0 (user_edit fss os p)"
  | next_pressed: "reachable validate fixStep p0 p \<Longrightarrow> wizard_active p
             \<Longrightarrow> reachable validate fixStep p0 (snd (nextPrev validate fixStep 1 p))"
  | prev_pressed: "reachable validate fixStep p0 p \<Longrightarrow> wizard_active p \<Longrightarrow> prev_shown p
             \<Longrightarrow> reachable validate fixStep p0 (snd (nextPrev validate fixStep (- 1) p))"

text \<open>
  A sequence of presses of the next control, each after an edit of the fields:
  \<open>step\<close> is the wizard's \<^verbatim>\<open>nextPrev(1)\<close>, and an edit is the new fields of the tabs
  and the new fields outside them.
\<close>

fun press_next_seq :: "(page \<Rightarrow> outcome \<times> page) \<Rightarrow> (field list list \<times> field list) list \<Rightarrow> page \<Rightarrow> page" where
  "press_next_seq step [] p = p"
| "press_next_seq step (e # es) p = press_next_seq step es (snd (step (user_edit (fst e) (snd e) p)))"

text \<open>
  Every edit of the sequence keeps the number of tabs, and the page passes the test
  \<open>ok\<close> (the gating validation succeeds) at every press.
\<close>

fun all_valid :: "(page \<Rightarrow> bool) \<Rightarrow> (page \<Rightarrow> outcome \<times> page) \<Rightarrow> (field list list \<times> field list) list \<Rightarrow> page \<Rightarrow> bool" where
  "all_valid ok step [] p = True"
| "all_valid ok step (e # es) p =
     (length (fst e) = length (tabs p) \<and> ok (user_edit (fst e) (snd e) p)
      \<and> all_valid ok step es (snd (step (user_edit (fst e) (snd e) p))))"

text \<open>
  The calls made by \<open>m\<close> presses of the next control that start at step \<open>c\<close> of \<open>n\<close>
  steps: the \<open>j\<close>-th press shows step \<open>c + j\<close> while that is a step, and submits
  otherwise.
\<close>

definition forward_calls :: "int \<Rightarrow> int \<Rightarrow> nat \<Rightarrow> call list" where
  "forward_calls c n m = map (\<lambda>j. if c + 1 + int j < n then ShowTab (c + 1 + int j) else Submit) [0..<m]"

section \<open>Subject dropdowns (subject_validation.js)\<close>

text \<open>
  An \<^verbatim>\<open>option\<close> element is its \<^verbatim>\<open>value\<close> and its \<^verbatim>\<open>disabled\<close> flag; a
  \<^verbatim>\<open>select\<close> element is its current \<^verbatim>\<open>value\<close> and its options in document
  order. The array handed to \<^verbatim>\<open>updateSubjectOptions\<close> holds the results of four
  \<^verbatim>\<open>getElementById\<close> calls, so an entry may be \<^verbatim>\<open>null\<close> (\<open>None\<close>).
\<close>

record option_el =
  ovalue :: string
  disabled :: bool

record select_el =
  svalue :: string
  sel_options :: "option_el list"

text \<open>First loop of \<^verbatim>\<open>updateSubjectOptions\<close>: the set of non-empty current values.\<close>

definition selectedSubjects :: "select_el option list \<Rightarrow> string set" where
  "selectedSubjects selects =
     fold (\<lambda>sel acc. case sel of
                        None \<Rightarrow> acc
                      | Some s \<Rightarrow> if svalue s \<noteq> [] then insert (svalue s) acc else acc)
          selects {}"

text \<open>The body of the inner \<^verbatim>\<open>options.forEach\<close>, in the order of the source's branches.\<close>

definition update_option :: "string set \<Rightarrow> string \<Rightarrow> option_el \<Rightarrow> option_el" where
  "update_option selected currentValue opt =
     (if ovalue opt = [] \<or> ovalue opt = currentValue then opt\<lparr>disabled := False\<rparr>
      else if ovalue opt \<in> selected then opt\<lparr>disabled := True\<rparr>
      else opt\<lparr>disabled := False\<rparr>)"

definition updateSubjectOptions :: "select_el option list \<Rightarrow> select_el option list" where
  "updateSubjectOptions selects =
     (let selected = selectedSubjects selects in
      map (\<lambda>sel. case sel of
                    None \<Rightarrow> None
                  | Some s \<Rightarrow>
                      Some (s\<lparr>sel_options := map (update_option selected (svalue s)) (sel_options s)\<rparr>))
          selects)"

section \<open>Date of birth (date_validation.js, lines 8-41)\<close>

text \<open>
  \<^verbatim>\<open>validateDateOfBirth\<close> reads the value of the \<^verbatim>\<open>dob\<close> input and the value of the
  checked \<^verbatim>\<open>yeargroup\<close> radio button, each \<open>None\<close> when the element is missing. The
  platform functions are parameters: \<open>parse_date\<close> gives the year, month and day of
  \<^verbatim>\<open>new Date(s)\<close> as \<^verbatim>\<open>getFullYear\<close>, \<^verbatim>\<open>getMonth\<close> and \<^verbatim>\<open>getDate\<close> return them
  (\<open>None\<close> for an invalid date, whose parts are \<^verbatim>\<open>NaN\<close>), \<open>parse_int\<close> is
  \<^verbatim>\<open>parseInt\<close> (\<open>None\<close> for \<^verbatim>\<open>NaN\<close>), and \<open>today\<close> is the current date. The
  messages shown by \<^verbatim>\<open>alert\<close> are recorded by the numbers they print.
\<close>

type_synonym ymd = "int \<times> int \<times> int"

record dob_doc =
  dob_value :: "string option"
  yeargroup_checked :: "string option"
  alerts :: "(int option \<times> int \<times> int \<times> int) list"

text \<open>Lines 19-24: the age in whole years.\<close>

definition compute_age :: "ymd \<Rightarrow> ymd \<Rightarrow> int" where
  "compute_age today dob =
     (case today of (ty, tm, td) \<Rightarrow> case dob of (dy, dm, dd) \<Rightarrow>
        let age = ty - dy; monthDiff = tm - dm in
        if monthDiff < 0 \<or> (monthDiff = 0 \<and> td < dd) then age - 1 else age)"

text \<open>Lines 27-32: the lookup in the object literal; any other key is \<^verbatim>\<open>undefined\<close>.\<close>

definition validAges :: "int option \<Rightarrow> (int \<times> int) option" where
  "validAges yeargroup =
     (if yeargroup = Some 12 then Some (16, 17)
      else if yeargroup = Some 13 then Some (17, 18)
      else None)"

definition validateDateOfBirth ::
  "(string \<Rightarrow> ymd option) \<Rightarrow> (string \<Rightarrow> int option) \<Rightarrow> ymd \<Rightarrow> dob_doc \<Rightarrow> outcome \<times> dob_doc" where
  "validateDateOfBirth parse_date parse_int today d =
     (case dob_value d of
        None \<Rightarrow> (Return JTrue, d)
      | Some v \<Rightarrow>
          case yeargroup_checked d of
            None \<Rightarrow> (Return JTrue, d)
          | Some y \<Rightarrow>
              let age = map_option (compute_age today) (parse_date v);
                  yeargroup = parse_int y
              in case validAges yeargroup of
                   None \<Rightarrow> (Throw, d)
                 | Some (mn, mx) \<Rightarrow>
                     (case age of
                        None \<Rightarrow> (Return JTrue, d)
                      | Some a \<Rightarrow>
                          if a < mn \<or> a > mx
                          then (Return JFalse,
                                d\<lparr>dob_value := Some [], alerts := alerts d @ [(yeargroup, mn, mx, a)]\<rparr>)
                          else (Return JTrue, d)))"

section \<open>Fields of a step: what validation looks at\<close>

text \<open>Field \<open>i\<close> of tab \<open>t\<close>, and whether a field carries the class \<^verbatim>\<open>invalid\<close>.\<close>

definition field_at :: "page \<Rightarrow> nat \<Rightarrow> nat \<Rightarrow> field" where
  "field_at p t i = inputs (tabs p ! t) ! i"

definition marked_invalid :: "field \<Rightarrow> bool" where
  "marked_invalid f = has_class (fclass f) ''invalid''"

text \<open>
  The two ways a field fails the student wizard's check (add_student.js, lines 64-78):
  a required field that is not a radio button and whose value is empty or white space
  only; a required radio button such that no \<^verbatim>\<open>input\<close> of the document with its name
  is checked.
\<close>

definition blank_required :: "field \<Rightarrow> bool" where
  "blank_required f = (required f \<and> ftype f \<noteq> ''radio'' \<and> (fvalue f = [] \<or> js_trim (fvalue f) = []))"

definition group_checked :: "page \<Rightarrow> string \<Rightarrow> bool" where
  "group_checked p nm = list_ex (\<lambda>r. in_group nm r \<and> checked r) (all_fields p)"

definition radio_unchecked :: "page \<Rightarrow> field \<Rightarrow> bool" where
  "radio_unchecked p f = (required f \<and> ftype f = ''radio'' \<and> \<not> group_checked p (name_prop f))"

section \<open>Auxiliary notions for the proofs\<close>

text \<open>
  Two pages agree on everything but the form fields and the focus: the wizard's
  variable, which tabs are displayed, the step indicators, the two controls, the form
  and the record of calls.
\<close>

definition same_frame :: "page \<Rightarrow> page \<Rightarrow> bool" where
  "same_frame p p' =
     (currentTab p' = currentTab p \<and> map display (tabs p') = map display (tabs p)
      \<and> steps p' = steps p \<and> prevBtn p' = prevBtn p \<and> nextBtn p' = nextBtn p
      \<and> has_form p' = has_form p \<and> calls p' = calls p)"

text \<open>As \<open>same_frame\<close>, but the step indicators may differ.\<close>

definition nav_frame :: "page \<Rightarrow> page \<Rightarrow> bool" where
  "nav_frame p p' =
     (currentTab p' = currentTab p \<and> map display (tabs p') = map display (tabs p)
      \<and> prevBtn p' = prevBtn p \<and> nextBtn p' = nextBtn p
      \<and> has_form p' = has_form p \<and> calls p' = calls p)"

text \<open>An indicator update that changes nothing but the step indicators.\<close>

definition steps_only :: "(int \<Rightarrow> page \<Rightarrow> page) \<Rightarrow> bool" where
  "steps_only fixStep = (\<forall>n p. \<exists>s. fixStep n p = p\<lparr>steps := s\<rparr>)"

text \<open>What one press of the next control does when the page is in range and passes \<open>ok\<close>.\<close>

definition forward_step_ok :: "(page \<Rightarrow> bool) \<Rightarrow> (page \<Rightarrow> outcome \<times> page) \<Rightarrow> bool" where
  "forward_step_ok ok step =
     (\<forall>p. 0 \<le> currentTab p \<and> currentTab p < int (length (tabs p)) \<and> has_form p \<and> ok p \<longrightarrow>
        currentTab (snd (step p)) = currentTab p + 1
        \<and> length (tabs (snd (step p))) = length (tabs p)
        \<and> has_form (snd (step p))
        \<and> calls (snd (step p))
            = calls p @ [if currentTab p + 1 < int (length (tabs p)) then ShowTab (currentTab p + 1) else Submit])"

text \<open>Two pages have the same form fields up to the class strings of the fields.\<close>

definition unmark :: "field \<Rightarrow> field" where
  "unmark f = f\<lparr>fclass := []\<rparr>"

definition same_fields :: "page \<Rightarrow> page \<Rightarrow> bool" where
  "same_fields p p' =
     (map (\<lambda>t. map unmark (inputs t)) (tabs p') = map (\<lambda>t. map unmark (inputs t)) (tabs p)
      \<and> map unmark (others p') = map unmark (others p))"

text \<open>
  A class string of an indicator entry is clean when, once the first \<^verbatim>\<open>" active"\<close> is
  taken out of it, it still holds the class \<^verbatim>\<open>step\<close> and no \<^verbatim>\<open>active\<close> is left in it.
\<close>

definition clean_indicator :: "string \<Rightarrow> bool" where
  "clean_indicator c =
     (has_class (replace_first '' active'' [] c) ''step''
      \<and> \<not> sublist ''active'' (replace_first '' active'' [] c))"

section \<open>Example pages\<close>

text \<open>
  A wizard of three steps whose first step holds the given fields; the page is as the
  load leaves it. The fields to put there: a required text field with a given value
  and class string, an optional text field left empty, and radio buttons of the group
  \<^verbatim>\<open>yeargroup\<close>.
\<close>

definition wizard_page :: "field list \<Rightarrow> page" where
  "wizard_page fs =
     \<lparr>tabs = [\<lparr>display = ''block'', inputs = fs\<rparr>,
              \<lparr>display = ''none'', inputs = []\<rparr>,
              \<lparr>display = ''none'', inputs = []\<rparr>],
      steps = [''step active'', ''step'', ''step''],
      prevBtn = Some ''none'', nextBtn = Some ''Next'', others = [], has_form = True,
      currentTab = 0, focused = None, calls = [ShowTab 0]\<rparr>"

definition text_field :: "string \<Rightarrow> string \<Rightarrow> field" where
  "text_field v cls =
     \<lparr>tag = Input, ftype = ''text'', name_attr = Some ''fname'', required = True, fvalue = v,
      checked = False, fclass = cls\<rparr>"

definition optional_empty :: field where
  "optional_empty =
     \<lparr>tag = Input, ftype = ''text'', name_attr = Some ''mname'', required = False, fvalue = [],
      checked = False, fclass = []\<rparr>"

definition radio_field :: "bool \<Rightarrow> string \<Rightarrow> bool \<Rightarrow> field" where
  "radio_field req v c =
     \<lparr>tag = Input, ftype = ''radio'', name_attr = Some ''yeargroup'', required = req, fvalue = v,
      checked = c, fclass = []\<rparr>"

text \<open>The wizard whose first step holds the one required text field.\<close>

definition wizard_example :: "string \<Rightarrow> string \<Rightarrow> page" where
  "wizard_example v cls =
     \<lparr>tabs = [\<lparr>display = ''block'', inputs = [text_field v cls]\<rparr>,
              \<lparr>display = ''none'', inputs = []\<rparr>,
              \<lparr>display = ''none'', inputs = []\<rparr>],
      steps = [''step active'', ''step'', ''step''],
      prevBtn = Some ''none'', nextBtn = Some ''Next'', others = [], has_form = True,
      currentTab = 0, focused = None, calls = [ShowTab 0]\<rparr>"

text \<open>Three edits that fill the field of the first step.\<close>

definition example_edits :: "(field list list \<times> field list) list" where
  "example_edits =
     [([[text_field ''Alice'' []], [], []], []), ([[text_field ''Alice'' []], [], []], []),
      ([[text_field ''Alice'' []], [], []], [])]"

text \<open>
  A first step with a required text field left blank, an optional field left empty and
  a required radio button of a group without a checked member; and a first step with a
  required text field that is filled but still marked from an earlier attempt, and a
  required radio button that is checked.
\<close>

definition blank_example :: page where
  "blank_example = wizard_page [text_field [] [], optional_empty, radio_field True ''12'' False]"

definition marked_example :: page where
  "marked_example = wizard_page [text_field ''Alice'' ''invalid'', radio_field True ''12'' True]"

text \<open>A page whose first indicator entry has the class attribute \<^verbatim>\<open>"active step"\<close>.\<close>

definition indicator_example :: page where
  "indicator_example = (wizard_page [])\<lparr>steps := [''active step'', ''step'', ''step'']\<rparr>"

text \<open>Four dropdowns, one of them missing, and a date-of-birth form.\<close>

definition subjects_example :: "select_el option list" where
  "subjects_example =
     (let opts = [\<lparr>ovalue = [], disabled = True\<rparr>, \<lparr>ovalue = ''Maths'', disabled = True\<rparr>,
                 \<lparr>ovalue = ''Physics'', disabled = False\<rparr>, \<lparr>ovalue = ''Art'', disabled = True\<rparr>]
      in [Some \<lparr>svalue = ''Maths'', sel_options = opts\<rparr>,
          Some \<lparr>svalue = ''Physics'', sel_options = opts\<rparr>,
          None,
          Some \<lparr>svalue = [], sel_options = opts\<rparr>])"

definition dob_example :: dob_doc where
  "dob_example = \<lparr>dob_value = Some ''2012-03-04'', yeargroup_checked = Some ''12'', alerts = []\<rparr>"

definition parse_date_example :: "string \<Rightarrow> ymd option" where
  "parse_date_example s = (if s = ''2012-03-04'' then Some (2012, 2, 4) else None)"

definition parse_int_example :: "string \<Rightarrow> int option" where
  "parse_int_example s = (if s = ''12'' then Some 12 else if s = ''13'' then Some 13 else None)"

section \<open>Class strings: splitting, joining and the class list\<close>

lemma split_ws_aux_tokens:
  "t \<in> set (split_ws_aux cur s) \<Longrightarrow> \<forall>c \<in> set cur. \<not> ascii_ws c \<Longrightarrow> t \<noteq> [] \<and> (\<forall>c \<in> set t. \<not> ascii_ws c)"
proof (induction s arbitrary: cur)
  case Nil
  then show ?case by (simp split: if_splits)
next
  case (Cons a s)
  show ?case
  proof (cases "ascii_ws a")
    case True
    with Cons.prems have "t = cur \<and> cur \<noteq> [] \<or> t \<in> set (split_ws_aux [] s)"
      by (simp split: if_splits)
    then show ?thesis using Cons.IH [of "[]"] Cons.prems(2) by auto
  next
    case False
    with Cons.prems have "t \<in> set (split_ws_aux (cur @ [a]) s)" by simp
    then show ?thesis using Cons.IH [of "cur @ [a]"] Cons.prems(2) False by simp
  qed
qed

lemma split_ws_aux_token:
  "\<forall>c \<in> set t. \<not> ascii_ws c \<Longrightarrow> split_ws_aux cur (t @ s) = split_ws_aux (cur @ t) s"
  by (induction t arbitrary: cur) auto

lemma split_ws_aux_snoc:
  "t \<noteq> [] \<Longrightarrow> \<forall>c \<in> set t. \<not> ascii_ws c \<Longrightarrow>
   split_ws_aux cur (s @ CHR '' '' # t) = split_ws_aux cur s @ [t]"
proof (induction s arbitrary: cur)
  case Nil
  have "split_ws_aux [] (t @ []) = split_ws_aux ([] @ t) []"
    using Nil(2) by (rule split_ws_aux_token)
  then show ?case using Nil(1) by (simp add: ascii_ws_def)
next
  case (Cons a s)
  then show ?case by simp
qed

lemma split_ws_join_sp:
  "\<forall>t \<in> set ts. t \<noteq> [] \<and> (\<forall>c \<in> set t. \<not> ascii_ws c) \<Longrightarrow> split_ws (join_sp ts) = ts"
proof (induction ts rule: join_sp.induct)
  case 1
  show ?case by (simp add: split_ws_def)
next
  case (2 t)
  then have "split_ws_aux [] (t @ []) = split_ws_aux ([] @ t) []"
    by (intro split_ws_aux_token) simp
  with 2 show ?case by (simp add: split_ws_def)
next
  case (3 t u ts)
  have t: "t \<noteq> []" "\<forall>c \<in> set t. \<not> ascii_ws c" using 3(2) by simp_all
  have "split_ws_aux [] (t @ (CHR '' '' # join_sp (u # ts))) = split_ws_aux ([] @ t) (CHR '' '' # join_sp (u # ts))"
    using t(2) by (rule split_ws_aux_token)
  also have "\<dots> = t # split_ws_aux [] (join_sp (u # ts))"
    using t(1) by (simp add: ascii_ws_def)
  also have "\<dots> = t # u # ts" using 3 by (simp add: split_ws_def)
  finally show ?case by (simp add: split_ws_def)
qed

lemma split_ws_tokens: "t \<in> set (split_ws s) \<Longrightarrow> t \<noteq> [] \<and> (\<forall>c \<in> set t. \<not> ascii_ws c)"
  using split_ws_aux_tokens [of t "[]" s] by (simp add: split_ws_def)

lemma set_ordered_set: "set (ordered_set ts) = set ts"
  by (simp add: ordered_set_def)

lemma distinct_ordered_set: "distinct (ordered_set ts)"
  by (simp add: ordered_set_def)

lemma ordered_set_distinct: "distinct ts \<Longrightarrow> ordered_set ts = ts"
  by (simp add: ordered_set_def distinct_remdups_id)

lemma set_token_set: "set (token_set cls) = set (split_ws cls)"
  by (simp add: token_set_def set_ordered_set)

lemma token_set_tokens: "t \<in> set (token_set s) \<Longrightarrow> t \<noteq> [] \<and> (\<forall>c \<in> set t. \<not> ascii_ws c)"
  using split_ws_tokens by (simp add: set_token_set)

lemma token_set_join_sp:
  "\<forall>t \<in> set ts. t \<noteq> [] \<and> (\<forall>c \<in> set t. \<not> ascii_ws c) \<Longrightarrow> distinct ts \<Longrightarrow> token_set (join_sp ts) = ts"
  by (simp add: token_set_def split_ws_join_sp ordered_set_distinct)

lemma has_class_remove:
  "has_class (classList_remove cls tok) u \<longleftrightarrow> has_class cls u \<and> u \<noteq> tok"
proof -
  have "split_ws (join_sp (filter (\<lambda>t. t \<noteq> tok) (token_set cls))) = filter (\<lambda>t. t \<noteq> tok) (token_set cls)"
    by (rule split_ws_join_sp) (use token_set_tokens in auto)
  then show ?thesis by (auto simp: has_class_def classList_remove_def set_token_set)
qed

lemma has_class_add:
  assumes "tok \<noteq> []" "\<forall>c \<in> set tok. \<not> ascii_ws c"
  shows "has_class (classList_add cls tok) u \<longleftrightarrow> has_class cls u \<or> u = tok"
proof -
  let ?ts = "if tok \<in> set (token_set cls) then token_set cls else token_set cls @ [tok]"
  have "split_ws (join_sp ?ts) = ?ts"
    by (rule split_ws_join_sp) (use token_set_tokens assms in auto)
  then show ?thesis by (auto simp: has_class_def classList_add_def set_token_set Let_def)
qed

lemma has_class_append:
  assumes "tok \<noteq> []" "\<forall>c \<in> set tok. \<not> ascii_ws c"
  shows "has_class (cls @ CHR '' '' # tok) u \<longleftrightarrow> has_class cls u \<or> u = tok"
  using split_ws_aux_snoc [OF assms, of "[]" cls] by (auto simp: has_class_def split_ws_def)

lemma tok_invalid: "''invalid'' \<noteq> [] \<and> (\<forall>c \<in> set ''invalid''. \<not> ascii_ws c)"
  by (simp add: ascii_ws_def)
lemma tok_active: "''active'' \<noteq> [] \<and> (\<forall>c \<in> set ''active''. \<not> ascii_ws c)"
  by (simp add: ascii_ws_def)
lemma tok_finish: "''finish'' \<noteq> [] \<and> (\<forall>c \<in> set ''finish''. \<not> ascii_ws c)"
  by (simp add: ascii_ws_def)

lemma classList_remove_idem: "classList_remove (classList_remove cls tok) tok = classList_remove cls tok"
proof -
  let ?S = "filter (\<lambda>t. t \<noteq> tok) (token_set cls)"
  have "token_set (join_sp ?S) = ?S"
    by (rule token_set_join_sp) (use token_set_tokens in \<open>auto simp: token_set_def distinct_ordered_set\<close>)
  then show ?thesis by (simp add: classList_remove_def)
qed

lemma classList_add_remove_add:
  assumes "tok \<noteq> []" "\<forall>c \<in> set tok. \<not> ascii_ws c"
  shows "classList_add (classList_remove (classList_add (classList_remove cls tok) tok) tok) tok
         = classList_add (classList_remove cls tok) tok"
proof -
  let ?S = "filter (\<lambda>t. t \<noteq> tok) (token_set cls)"
  have S: "\<forall>t \<in> set ?S. t \<noteq> [] \<and> (\<forall>c \<in> set t. \<not> ascii_ws c)" "distinct ?S" "tok \<notin> set ?S"
    using token_set_tokens by (auto simp: token_set_def distinct_ordered_set)
  have 1: "token_set (join_sp ?S) = ?S" using S by (intro token_set_join_sp)
  have 2: "classList_add (classList_remove cls tok) tok = join_sp (?S @ [tok])"
    using S(3) by (simp add: classList_add_def classList_remove_def 1 Let_def)
  have 3: "token_set (join_sp (?S @ [tok])) = ?S @ [tok]"
    using S assms by (intro token_set_join_sp) auto
  have 4: "classList_remove (join_sp (?S @ [tok])) tok = join_sp ?S"
    using S(3) by (simp add: classList_remove_def 3)
  show ?thesis unfolding 2 4 using S(3) by (simp add: classList_add_def 1 Let_def)
qed

section \<open>What validation leaves untouched\<close>

lemma same_frame_refl: "same_frame p p"
  by (simp add: same_frame_def)

lemma same_frame_trans: "same_frame p q \<Longrightarrow> same_frame q r \<Longrightarrow> same_frame p r"
  by (simp add: same_frame_def)

lemma same_frame_length: "same_frame p p' \<Longrightarrow> length (tabs p') = length (tabs p)"
  unfolding same_frame_def by (metis length_map)

lemma map_display_update_inputs:
  "map display (ts[t := (ts ! t)\<lparr>inputs := fs\<rparr>]) = map display ts"
proof (cases "t < length ts")
  case True
  then show ?thesis by (simp add: map_update list_update_same_conv)
next
  case False
  then show ?thesis by (simp add: list_update_beyond)
qed

lemma same_frame_update_field: "same_frame p (update_field t i g p)"
  by (simp add: same_frame_def update_field_def map_display_update_inputs)

lemma same_frame_map_fields: "same_frame p (map_fields g p)"
  by (simp add: same_frame_def map_fields_def comp_def)

lemma same_frame_validate_field_student:
  "same_frame p (snd (validate_field_student t i (v, p)))"
proof -
  have a: "same_frame p (update_field t i remove_invalid p)" by (rule same_frame_update_field)
  have b: "same_frame p (update_field t i add_invalid (update_field t i remove_invalid p))"
    by (rule same_frame_trans [OF a same_frame_update_field])
  have c: "same_frame p (map_fields g (update_field t i remove_invalid p))" for g
    by (rule same_frame_trans [OF a same_frame_map_fields])
  show ?thesis using a b c by (simp add: validate_field_student_def Let_def)
qed

lemma same_frame_fold_student:
  "same_frame p (snd (fold (validate_field_student t) is (v, p)))"
proof (induction "is" arbitrary: v p)
  case Nil
  show ?case by (simp add: same_frame_refl)
next
  case (Cons i "is")
  obtain v' p' where s: "validate_field_student t i (v, p) = (v', p')" by (cases "validate_field_student t i (v, p)")
  have "same_frame p p'" using same_frame_validate_field_student [of p t i v] s by simp
  moreover have "same_frame p' (snd (fold (validate_field_student t) is (v', p')))" by (rule Cons.IH)
  ultimately show ?case using s by (simp add: same_frame_trans)
qed

lemma same_frame_focus: "same_frame p (focus_first_invalid t p)"
  by (simp add: same_frame_def focus_first_invalid_def split: option.splits)

lemma same_frame_validateForm_student:
  "same_frame p (snd (validateForm_student p))"
proof (cases "nth_opt (tabs p) (currentTab p)")
  case None
  then show ?thesis by (simp add: validateForm_student_def same_frame_refl)
next
  case (Some tb)
  let ?r = "fold (validate_field_student (nat (currentTab p))) [0..<length (inputs tb)] (True, p)"
  have "same_frame p (snd ?r)" by (rule same_frame_fold_student)
  then have "same_frame p (focus_first_invalid (nat (currentTab p)) (snd ?r))"
    by (rule same_frame_trans [OF _ same_frame_focus])
  then show ?thesis using Some by (simp add: validateForm_student_def Let_def split_beta)
qed

lemma nth_opt_Some: "nth_opt xs i = Some x \<longleftrightarrow> 0 \<le> i \<and> i < int (length xs) \<and> x = xs ! nat i"
  by (auto simp: nth_opt_def)

lemma nth_opt_None: "nth_opt xs i = None \<longleftrightarrow> \<not> (0 \<le> i \<and> i < int (length xs))"
  by (auto simp: nth_opt_def)

lemma same_frame_validateForm_teacher_False:
  assumes "validateForm_teacher p = (False, p')"
  shows "same_frame p p'"
proof (cases "nth_opt (tabs p) (currentTab p)")
  case None
  then show ?thesis using assms by (simp add: validateForm_teacher_def)
next
  case (Some tb)
  then have tb: "tb = tabs p ! nat (currentTab p)" by (simp add: nth_opt_Some)
  let ?p1 = "p\<lparr>tabs := (tabs p)[nat (currentTab p) := tb\<lparr>inputs := map validate_field_teacher (inputs tb)\<rparr>]\<rparr>"
  have "p' = ?p1"
    using assms Some by (simp add: validateForm_teacher_def Let_def split: if_splits)
  moreover have "same_frame p ?p1"
    unfolding tb by (simp add: same_frame_def map_display_update_inputs)
  ultimately show ?thesis by simp
qed

section \<open>Showing a tab and moving between tabs\<close>

lemma steps_only_student: "steps_only fixStepIndicator_student"
  unfolding steps_only_def fixStepIndicator_student_def Let_def by blast

lemma steps_only_teacher: "steps_only fixStepIndicator_teacher"
  unfolding steps_only_def fixStepIndicator_teacher_def Let_def by blast

lemma steps_only_sel:
  assumes "steps_only fixStep"
  shows "tabs (fixStep n p) = tabs p" "currentTab (fixStep n p) = currentTab p"
        "prevBtn (fixStep n p) = prevBtn p" "nextBtn (fixStep n p) = nextBtn p"
        "has_form (fixStep n p) = has_form p" "calls (fixStep n p) = calls p"
        "others (fixStep n p) = others p" "focused (fixStep n p) = focused p"
proof -
  obtain s where "fixStep n p = p\<lparr>steps := s\<rparr>"
    using assms unfolding steps_only_def by blast
  then show "tabs (fixStep n p) = tabs p" "currentTab (fixStep n p) = currentTab p"
        "prevBtn (fixStep n p) = prevBtn p" "nextBtn (fixStep n p) = nextBtn p"
        "has_form (fixStep n p) = has_form p" "calls (fixStep n p) = calls p"
        "others (fixStep n p) = others p" "focused (fixStep n p) = focused p"
    by simp_all
qed

lemma map_inputs_update_display:
  "map inputs (ts[t := (ts ! t)\<lparr>display := d\<rparr>]) = map inputs ts"
proof (cases "t < length ts")
  case True
  then show ?thesis by (simp add: map_update list_update_same_conv)
next
  case False
  then show ?thesis by (simp add: list_update_beyond)
qed

lemma map_inputs_hide: "map inputs (map hide_tab ts) = map inputs ts"
  by (simp add: hide_tab_def comp_def)

lemma showTab_nav:
  assumes "steps_only fixStep"
  shows "currentTab (snd (showTab fixStep n p)) = currentTab p"
    and "calls (snd (showTab fixStep n p)) = calls p @ [ShowTab n]"
    and "length (tabs (snd (showTab fixStep n p))) = length (tabs p)"
    and "has_form (snd (showTab fixStep n p)) = has_form p"
    and "map inputs (tabs (snd (showTab fixStep n p))) = map inputs (tabs p)"
    and "others (snd (showTab fixStep n p)) = others p"
proof -
  show "currentTab (snd (showTab fixStep n p)) = currentTab p"
    and "calls (snd (showTab fixStep n p)) = calls p @ [ShowTab n]"
    and "length (tabs (snd (showTab fixStep n p))) = length (tabs p)"
    and "has_form (snd (showTab fixStep n p)) = has_form p"
    and "others (snd (showTab fixStep n p)) = others p"
    by (simp_all add: showTab_def Let_def steps_only_sel [OF assms])
  have "map inputs ((map hide_tab (tabs p))[nat n := (map hide_tab (tabs p) ! nat n)\<lparr>display := ''block''\<rparr>])
        = map inputs (tabs p)"
    by (simp only: map_inputs_update_display map_inputs_hide)
  then show "map inputs (tabs (snd (showTab fixStep n p))) = map inputs (tabs p)"
    by (simp add: showTab_def Let_def steps_only_sel [OF assms] hide_tab_def)
qed

lemma showTab_in_range:
  assumes "steps_only fixStep" and "0 \<le> n" and "n < int (length (tabs p))"
  shows "fst (showTab fixStep n p) = Return JUndefined"
    and "prevBtn (snd (showTab fixStep n p)) = map_option (\<lambda>_. if n = 0 then ''none'' else ''inline'') (prevBtn p)"
    and "map display (tabs (snd (showTab fixStep n p))) = (replicate (length (tabs p)) ''none'')[nat n := ''block'']"
proof -
  have ne: "tabs p \<noteq> []" using assms(2,3) by auto
  show "fst (showTab fixStep n p) = Return JUndefined"
    using ne assms(2,3) by (simp add: showTab_def Let_def)
  show "prevBtn (snd (showTab fixStep n p)) = map_option (\<lambda>_. if n = 0 then ''none'' else ''inline'') (prevBtn p)"
    using ne assms(2,3) by (simp add: showTab_def Let_def steps_only_sel [OF assms(1)])
  have "map display (map hide_tab (tabs p)) = replicate (length (tabs p)) ''none''"
    by (simp add: hide_tab_def comp_def map_replicate_const)
  then show "map display (tabs (snd (showTab fixStep n p))) = (replicate (length (tabs p)) ''none'')[nat n := ''block'']"
    using ne assms(2,3) by (simp add: showTab_def Let_def steps_only_sel [OF assms(1)] map_update)
qed

lemma nextPrev_invalid:
  "validate p = (False, p1) \<Longrightarrow> nextPrev validate fixStep 1 p = (Return JFalse, p1)"
  by (simp add: nextPrev_def)

lemma nextPrev_back_ungated:
  "nextPrev validate fixStep (- 1) p = nextPrev validate' fixStep (- 1) p"
  by (simp add: nextPrev_def)

lemma nextPrev_back_currentTab:
  assumes "steps_only fixStep"
  shows "currentTab (snd (nextPrev validate fixStep (- 1) p)) = currentTab p - 1"
  by (simp add: nextPrev_def Let_def showTab_nav [OF assms] split: option.splits)

lemma nextPrev_back_fields:
  assumes "steps_only fixStep"
  shows "map inputs (tabs (snd (nextPrev validate fixStep (- 1) p))) = map inputs (tabs p)"
    and "others (snd (nextPrev validate fixStep (- 1) p)) = others p"
proof -
  let ?p2 = "case nth_opt (tabs p) (currentTab p) of
               None \<Rightarrow> p
             | Some t \<Rightarrow> p\<lparr>tabs := (tabs p)[nat (currentTab p) := hide_tab t]\<rparr>"
  have a: "map inputs (tabs ?p2) = map inputs (tabs p)" "others ?p2 = others p"
    using map_inputs_update_display [of "tabs p" "nat (currentTab p)" "''none''"]
    by (auto simp: nth_opt_Some hide_tab_def split: option.splits)
  have b: "snd (nextPrev validate fixStep (- 1) p)
           = (let p3 = ?p2\<lparr>currentTab := currentTab ?p2 - 1\<rparr> in
              if currentTab p3 \<ge> int (length (tabs p3))
              then (if has_form p3 then p3\<lparr>calls := calls p3 @ [Submit]\<rparr> else p3)
              else snd (showTab fixStep (currentTab p3) p3))"
    by (simp add: nextPrev_def Let_def)
  show "map inputs (tabs (snd (nextPrev validate fixStep (- 1) p))) = map inputs (tabs p)"
    unfolding b using a(1) by (simp add: Let_def showTab_nav [OF assms])
  show "others (snd (nextPrev validate fixStep (- 1) p)) = others p"
    unfolding b using a(2) by (simp add: Let_def showTab_nav [OF assms])
qed

text \<open>
  Claim C1. When \<^verbatim>\<open>validateForm\<close> fails, \<^verbatim>\<open>nextPrev(1)\<close> returns \<^verbatim>\<open>false\<close> and the page
  is the one validation left: \<^verbatim>\<open>currentTab\<close>, the display of every tab, the step
  indicators, both controls and the record of calls (so no \<^verbatim>\<open>showTab\<close>, no
  submission) are as before the call; only the marks and the focus that validation
  itself sets may differ. \<^verbatim>\<open>nextPrev(-1)\<close> never runs validation: its result is the
  same under a validation that always fails, it lowers \<^verbatim>\<open>currentTab\<close> by one and leaves
  every form field as it was. Stated for the student and the teacher wizard.
\<close>

theorem nextPrev_blocked_by_failed_validation:
  "(validateForm_student p = (False, p1) \<longrightarrow>
      nextPrev_student 1 p = (Return JFalse, p1)
      \<and> currentTab p1 = currentTab p \<and> map display (tabs p1) = map display (tabs p)
      \<and> calls p1 = calls p \<and> steps p1 = steps p \<and> prevBtn p1 = prevBtn p \<and> nextBtn p1 = nextBtn p)
   \<and> (validateForm_teacher p = (False, p2) \<longrightarrow>
      nextPrev_teacher 1 p = (Return JFalse, p2)
      \<and> currentTab p2 = currentTab p \<and> map display (tabs p2) = map display (tabs p)
      \<and> calls p2 = calls p \<and> steps p2 = steps p \<and> prevBtn p2 = prevBtn p \<and> nextBtn p2 = nextBtn p)
   \<and> nextPrev_student (- 1) p = nextPrev (\<lambda>q. (False, q)) fixStepIndicator_student (- 1) p
   \<and> nextPrev_teacher (- 1) p = nextPrev (\<lambda>q. (False, q)) fixStepIndicator_teacher (- 1) p
   \<and> currentTab (snd (nextPrev_student (- 1) p)) = currentTab p - 1
   \<and> currentTab (snd (nextPrev_teacher (- 1) p)) = currentTab p - 1
   \<and> map inputs (tabs (snd (nextPrev_student (- 1) p))) = map inputs (tabs p)
   \<and> map inputs (tabs (snd (nextPrev_teacher (- 1) p))) = map inputs (tabs p)"
proof -
  have s: "validateForm_student p = (False, p1) \<Longrightarrow> same_frame p p1"
    using same_frame_validateForm_student [of p] by simp
  have t: "validateForm_teacher p = (False, p2) \<Longrightarrow> same_frame p p2"
    by (rule same_frame_validateForm_teacher_False)
  show ?thesis
    unfolding nextPrev_student_def nextPrev_teacher_def
    using s t nextPrev_invalid [of validateForm_student p p1 fixStepIndicator_student]
          nextPrev_invalid [of validateForm_teacher p p2 fixStepIndicator_teacher]
          nextPrev_back_ungated [of validateForm_student fixStepIndicator_student p "\<lambda>q. (False, q)"]
          nextPrev_back_ungated [of validateForm_teacher fixStepIndicator_teacher p "\<lambda>q. (False, q)"]
          nextPrev_back_currentTab [OF steps_only_student, of validateForm_student p]
          nextPrev_back_currentTab [OF steps_only_teacher, of validateForm_teacher p]
          nextPrev_back_fields(1) [OF steps_only_student, of validateForm_student p]
          nextPrev_back_fields(1) [OF steps_only_teacher, of validateForm_teacher p]
    by (simp add: same_frame_def)
qed

theorem nextPrev_blocked_by_failed_validation_witness:
  "validateForm_student (wizard_example [] []) = (False, (wizard_example [] ''invalid'')\<lparr>focused := Some (0, 0)\<rparr>)
   \<and> validateForm_teacher (wizard_example [] []) = (False, wizard_example [] ''invalid'')
   \<and> nextPrev_student 1 (wizard_example [] [])
       = (Return JFalse, (wizard_example [] ''invalid'')\<lparr>focused := Some (0, 0)\<rparr>)
   \<and> nextPrev_teacher 1 (wizard_example [] []) = (Return JFalse, wizard_example [] ''invalid'')
   \<and> currentTab (snd (nextPrev_student (- 1) (wizard_example [] []))) = - 1"
proof -
  have a: "validateForm_student (wizard_example [] [])
           = (False, (wizard_example [] ''invalid'')\<lparr>focused := Some (0, 0)\<rparr>)"
    by code_simp
  have b: "validateForm_teacher (wizard_example [] []) = (False, wizard_example [] ''invalid'')"
    by code_simp
  have c: "currentTab (wizard_example [] []) = 0" by (simp add: wizard_example_def)
  note T = nextPrev_blocked_by_failed_validation
            [of "wizard_example [] []" "(wizard_example [] ''invalid'')\<lparr>focused := Some (0, 0)\<rparr>"
                "wizard_example [] ''invalid''"]
  have t1: "nextPrev_student 1 (wizard_example [] [])
            = (Return JFalse, (wizard_example [] ''invalid'')\<lparr>focused := Some (0, 0)\<rparr>)"
    using T a by blast
  have t2: "nextPrev_teacher 1 (wizard_example [] []) = (Return JFalse, wizard_example [] ''invalid'')"
    using T b by blast
  have t3: "currentTab (snd (nextPrev_student (- 1) (wizard_example [] [])))
            = currentTab (wizard_example [] []) - 1"
    using T by blast
  show ?thesis using a b t1 t2 t3 c by simp
qed

section \<open>Pressing the next control\<close>

lemma same_frame_nav: "same_frame p p' \<Longrightarrow> nav_frame p p'"
  by (simp add: same_frame_def nav_frame_def)

lemma nav_frame_length: "nav_frame p p' \<Longrightarrow> length (tabs p') = length (tabs p)"
  unfolding nav_frame_def by (metis length_map)

lemma nav_frame_validateForm_teacher: "nav_frame p (snd (validateForm_teacher p))"
proof (cases "nth_opt (tabs p) (currentTab p)")
  case None
  then show ?thesis by (simp add: validateForm_teacher_def nav_frame_def)
next
  case (Some tb)
  then have tb: "tb = tabs p ! nat (currentTab p)" by (simp add: nth_opt_Some)
  let ?p1 = "p\<lparr>tabs := (tabs p)[nat (currentTab p) := tb\<lparr>inputs := map validate_field_teacher (inputs tb)\<rparr>]\<rparr>"
  have a: "nav_frame p ?p1"
    unfolding tb by (simp add: nav_frame_def map_display_update_inputs)
  have b: "nav_frame p (?p1\<lparr>steps := s\<rparr>)" for s
    using a by (simp add: nav_frame_def)
  show ?thesis
    using Some a b by (simp add: validateForm_teacher_def Let_def split: option.splits)
qed

lemma nav_frame_validateForm_reg: "nav_frame p (snd (validateForm_reg p))"
proof (cases "nth_opt (tabs p) (currentTab p)")
  case None
  then show ?thesis by (simp add: validateForm_reg_def nav_frame_def)
next
  case (Some tb)
  then have tb: "tb = tabs p ! nat (currentTab p)" by (simp add: nth_opt_Some)
  let ?p1 = "p\<lparr>tabs := (tabs p)[nat (currentTab p) :=
                 tb\<lparr>inputs := map (\<lambda>y. if tag y = Input then validate_field_reg y else y) (inputs tb)\<rparr>]\<rparr>"
  have a: "nav_frame p ?p1"
    unfolding tb by (simp add: nav_frame_def map_display_update_inputs)
  have b: "nav_frame p (?p1\<lparr>steps := s\<rparr>)" for s
    using a by (simp add: nav_frame_def)
  show ?thesis
    using Some a b by (simp add: validateForm_reg_def Let_def split: option.splits)
qed

lemma nextPrev_forward:
  assumes fx: "steps_only fixStep"
      and v: "validate p = (True, p1)" and nf: "nav_frame p p1"
      and r: "0 \<le> currentTab p" "currentTab p < int (length (tabs p))"
  shows "currentTab (snd (nextPrev validate fixStep 1 p)) = currentTab p + 1"
    and "length (tabs (snd (nextPrev validate fixStep 1 p))) = length (tabs p)"
    and "has_form (snd (nextPrev validate fixStep 1 p)) = has_form p"
    and "currentTab p + 1 < int (length (tabs p)) \<Longrightarrow>
           fst (nextPrev validate fixStep 1 p) = Return JUndefined
           \<and> calls (snd (nextPrev validate fixStep 1 p)) = calls p @ [ShowTab (currentTab p + 1)]
           \<and> map display (tabs (snd (nextPrev validate fixStep 1 p)))
               = (replicate (length (tabs p)) ''none'')[nat (currentTab p + 1) := ''block'']"
    and "\<not> currentTab p + 1 < int (length (tabs p)) \<Longrightarrow> has_form p \<Longrightarrow>
           fst (nextPrev validate fixStep 1 p) = Return JFalse
           \<and> calls (snd (nextPrev validate fixStep 1 p)) = calls p @ [Submit]"
proof -
  have len: "length (tabs p1) = length (tabs p)" using nf by (rule nav_frame_length)
  have sel: "currentTab p1 = currentTab p" "has_form p1 = has_form p" "calls p1 = calls p"
    using nf by (simp_all add: nav_frame_def)
  have some: "nth_opt (tabs p1) (currentTab p1) = Some (tabs p1 ! nat (currentTab p))"
    using r len sel by (simp add: nth_opt_def)
  let ?p3 = "p1\<lparr>tabs := (tabs p1)[nat (currentTab p) := hide_tab (tabs p1 ! nat (currentTab p))],
                currentTab := currentTab p + 1\<rparr>"
  have np: "nextPrev validate fixStep 1 p
            = (if currentTab p + 1 \<ge> int (length (tabs p))
               then (Return JFalse, if has_form p then ?p3\<lparr>calls := calls p @ [Submit]\<rparr> else ?p3)
               else showTab fixStep (currentTab p + 1) ?p3)"
    using v some len sel by (simp add: nextPrev_def Let_def)
  have l3: "length (tabs ?p3) = length (tabs p)" using len by simp
  show "currentTab (snd (nextPrev validate fixStep 1 p)) = currentTab p + 1"
    unfolding np by (simp add: showTab_nav [OF fx])
  show "length (tabs (snd (nextPrev validate fixStep 1 p))) = length (tabs p)"
    unfolding np using len by (simp add: showTab_nav [OF fx])
  show "has_form (snd (nextPrev validate fixStep 1 p)) = has_form p"
    unfolding np using sel by (simp add: showTab_nav [OF fx])
  show "fst (nextPrev validate fixStep 1 p) = Return JUndefined
           \<and> calls (snd (nextPrev validate fixStep 1 p)) = calls p @ [ShowTab (currentTab p + 1)]
           \<and> map display (tabs (snd (nextPrev validate fixStep 1 p)))
               = (replicate (length (tabs p)) ''none'')[nat (currentTab p + 1) := ''block'']"
    if lt: "currentTab p + 1 < int (length (tabs p))"
  proof -
    have a: "0 \<le> currentTab p + 1" "currentTab p + 1 < int (length (tabs ?p3))"
      using r lt len by simp_all
    show ?thesis
      unfolding np using lt sel len showTab_in_range(1,3) [OF fx a] showTab_nav(2) [OF fx, of "currentTab p + 1" ?p3]
      by simp
  qed
  show "fst (nextPrev validate fixStep 1 p) = Return JFalse
           \<and> calls (snd (nextPrev validate fixStep 1 p)) = calls p @ [Submit]"
    if "\<not> currentTab p + 1 < int (length (tabs p))" "has_form p"
    unfolding np using that by simp
qed

lemma fixStepIndicator_reg_nav:
  "currentTab (snd (fixStepIndicator_reg n p)) = currentTab p"
  "calls (snd (fixStepIndicator_reg n p)) = calls p"
  "tabs (snd (fixStepIndicator_reg n p)) = tabs p"
  "has_form (snd (fixStepIndicator_reg n p)) = has_form p"
  "fst (fixStepIndicator_reg n p) = Return JUndefined \<or> fst (fixStepIndicator_reg n p) = Throw"
  by (simp_all add: fixStepIndicator_reg_def Let_def split: option.splits)

lemma showTab_reg_nav:
  "currentTab (snd (showTab_reg n p)) = currentTab p"
  "calls (snd (showTab_reg n p)) = calls p @ [ShowTab n]"
  "length (tabs (snd (showTab_reg n p))) = length (tabs p)"
  "has_form (snd (showTab_reg n p)) = has_form p"
  "fst (showTab_reg n p) = Return JUndefined \<or> fst (showTab_reg n p) = Throw"
  by (simp_all add: showTab_reg_def Let_def fixStepIndicator_reg_nav split: option.splits)

lemma nextPrev_reg_forward:
  assumes v: "validateForm_reg p = (Return JTrue, p1)"
      and r: "0 \<le> currentTab p" "currentTab p < int (length (tabs p))"
  shows "currentTab (snd (nextPrev_reg 1 p)) = currentTab p + 1"
    and "length (tabs (snd (nextPrev_reg 1 p))) = length (tabs p)"
    and "has_form (snd (nextPrev_reg 1 p)) = has_form p"
    and "currentTab p + 1 < int (length (tabs p)) \<Longrightarrow>
           (fst (nextPrev_reg 1 p) = Return JUndefined \<or> fst (nextPrev_reg 1 p) = Throw)
           \<and> calls (snd (nextPrev_reg 1 p)) = calls p @ [ShowTab (currentTab p + 1)]"
    and "\<not> currentTab p + 1 < int (length (tabs p)) \<Longrightarrow> has_form p \<Longrightarrow>
           fst (nextPrev_reg 1 p) = Return JFalse
           \<and> calls (snd (nextPrev_reg 1 p)) = calls p @ [Submit]"
proof -
  have nf: "nav_frame p p1" using nav_frame_validateForm_reg [of p] v by simp
  have len: "length (tabs p1) = length (tabs p)" using nf by (rule nav_frame_length)
  have sel: "currentTab p1 = currentTab p" "has_form p1 = has_form p" "calls p1 = calls p"
    using nf by (simp_all add: nav_frame_def)
  have some: "nth_opt (tabs p1) (currentTab p1) = Some (tabs p1 ! nat (currentTab p))"
    using r len sel by (simp add: nth_opt_def)
  let ?p3 = "p1\<lparr>tabs := (tabs p1)[nat (currentTab p) := hide_tab (tabs p1 ! nat (currentTab p))],
                currentTab := currentTab p + 1\<rparr>"
  have np: "nextPrev_reg 1 p
            = (if currentTab p + 1 \<ge> int (length (tabs p))
               then (if has_form p then (Return JFalse, ?p3\<lparr>calls := calls p @ [Submit]\<rparr>) else (Throw, ?p3))
               else showTab_reg (currentTab p + 1) ?p3)"
    using v some len sel by (simp add: nextPrev_reg_def Let_def)
  show "currentTab (snd (nextPrev_reg 1 p)) = currentTab p + 1"
    unfolding np by (simp add: showTab_reg_nav)
  show "length (tabs (snd (nextPrev_reg 1 p))) = length (tabs p)"
    unfolding np using len by (simp add: showTab_reg_nav)
  show "has_form (snd (nextPrev_reg 1 p)) = has_form p"
    unfolding np using sel by (simp add: showTab_reg_nav)
  show "(fst (nextPrev_reg 1 p) = Return JUndefined \<or> fst (nextPrev_reg 1 p) = Throw)
           \<and> calls (snd (nextPrev_reg 1 p)) = calls p @ [ShowTab (currentTab p + 1)]"
    if lt: "currentTab p + 1 < int (length (tabs p))"
    unfolding np using lt sel showTab_reg_nav(5) [of "currentTab p + 1" ?p3]
    by (simp add: showTab_reg_nav)
  show "fst (nextPrev_reg 1 p) = Return JFalse \<and> calls (snd (nextPrev_reg 1 p)) = calls p @ [Submit]"
    if "\<not> currentTab p + 1 < int (length (tabs p))" "has_form p"
    unfolding np using that by simp
qed

lemma user_edit_nav:
  "length fss = length (tabs p) \<Longrightarrow> length (tabs (user_edit fss os p)) = length (tabs p)"
  "currentTab (user_edit fss os p) = currentTab p"
  "has_form (user_edit fss os p) = has_form p"
  "calls (user_edit fss os p) = calls p"
  "prevBtn (user_edit fss os p) = prevBtn p"
  by (simp_all add: user_edit_def)

lemma forward_calls_Suc:
  "forward_calls c n (Suc m)
   = (if c + 1 < n then ShowTab (c + 1) else Submit) # forward_calls (c + 1) n m"
proof -
  have "[0..<Suc m] = 0 # map Suc [0..<m]" by (simp add: upt_conv_Cons map_Suc_upt del: upt_Suc)
  then show ?thesis by (simp add: forward_calls_def comp_def add.assoc add.commute del: upt_Suc)
qed

lemma press_next_seq_forward:
  assumes ok: "forward_step_ok ok step"
  shows "all_valid ok step es p \<Longrightarrow> 0 \<le> currentTab p
         \<Longrightarrow> currentTab p + int (length es) \<le> int (length (tabs p)) \<Longrightarrow> has_form p
         \<Longrightarrow> currentTab (press_next_seq step es p) = currentTab p + int (length es)
             \<and> calls (press_next_seq step es p)
                 = calls p @ forward_calls (currentTab p) (int (length (tabs p))) (length es)"
proof (induction es arbitrary: p)
  case Nil
  show ?case by (simp add: forward_calls_def)
next
  case (Cons e es)
  let ?p' = "user_edit (fst e) (snd e) p"
  let ?q = "snd (step ?p')"
  have len: "length (fst e) = length (tabs p)" and okp: "ok ?p'" and rest: "all_valid ok step es ?q"
    using Cons.prems(1) by simp_all
  have p': "currentTab ?p' = currentTab p" "length (tabs ?p') = length (tabs p)" "has_form ?p'" "calls ?p' = calls p"
    using len Cons.prems(4) by (simp_all add: user_edit_nav)
  have rng: "0 \<le> currentTab ?p'" "currentTab ?p' < int (length (tabs ?p'))"
    using Cons.prems(2,3) p' by simp_all
  have q: "currentTab ?q = currentTab p + 1" "length (tabs ?q) = length (tabs p)" "has_form ?q"
          "calls ?q = calls p @ [if currentTab p + 1 < int (length (tabs p)) then ShowTab (currentTab p + 1) else Submit]"
    using ok rng p' okp unfolding forward_step_ok_def by (metis (no_types, lifting))+
  have "currentTab (press_next_seq step es ?q) = currentTab ?q + int (length es)
        \<and> calls (press_next_seq step es ?q)
            = calls ?q @ forward_calls (currentTab ?q) (int (length (tabs ?q))) (length es)"
    using Cons.prems(2,3) q by (intro Cons.IH [OF rest]) simp_all
  then show ?case
    using q by (simp add: forward_calls_Suc)
qed

lemma forward_step_ok_student:
  "forward_step_ok (\<lambda>q. fst (validateForm_student q)) (nextPrev_student 1)"
proof -
  have "currentTab (snd (nextPrev_student 1 p)) = currentTab p + 1
        \<and> length (tabs (snd (nextPrev_student 1 p))) = length (tabs p)
        \<and> has_form (snd (nextPrev_student 1 p))
        \<and> calls (snd (nextPrev_student 1 p))
            = calls p @ [if currentTab p + 1 < int (length (tabs p)) then ShowTab (currentTab p + 1) else Submit]"
    if r: "0 \<le> currentTab p" "currentTab p < int (length (tabs p))" and f: "has_form p"
      and v: "fst (validateForm_student p)" for p
  proof -
    have v': "validateForm_student p = (True, snd (validateForm_student p))"
      using v by (cases "validateForm_student p") simp
    have nf: "nav_frame p (snd (validateForm_student p))"
      by (rule same_frame_nav [OF same_frame_validateForm_student])
    note F = nextPrev_forward [where validate = validateForm_student and p = p, OF steps_only_student v' nf r]
    show ?thesis
      unfolding nextPrev_student_def using F(1,2,3) F(4) F(5) f
      by (cases "currentTab p + 1 < int (length (tabs p))") simp_all
  qed
  then show ?thesis unfolding forward_step_ok_def by blast
qed

lemma forward_step_ok_teacher:
  "forward_step_ok (\<lambda>q. fst (validateForm_teacher q)) (nextPrev_teacher 1)"
proof -
  have "currentTab (snd (nextPrev_teacher 1 p)) = currentTab p + 1
        \<and> length (tabs (snd (nextPrev_teacher 1 p))) = length (tabs p)
        \<and> has_form (snd (nextPrev_teacher 1 p))
        \<and> calls (snd (nextPrev_teacher 1 p))
            = calls p @ [if currentTab p + 1 < int (length (tabs p)) then ShowTab (currentTab p + 1) else Submit]"
    if r: "0 \<le> currentTab p" "currentTab p < int (length (tabs p))" and f: "has_form p"
      and v: "fst (validateForm_teacher p)" for p
  proof -
    have v': "validateForm_teacher p = (True, snd (validateForm_teacher p))"
      using v by (cases "validateForm_teacher p") simp
    have nf: "nav_frame p (snd (validateForm_teacher p))"
      by (rule nav_frame_validateForm_teacher)
    note F = nextPrev_forward [where validate = validateForm_teacher and p = p, OF steps_only_teacher v' nf r]
    show ?thesis
      unfolding nextPrev_teacher_def using F(1,2,3) F(4) F(5) f
      by (cases "currentTab p + 1 < int (length (tabs p))") simp_all
  qed
  then show ?thesis unfolding forward_step_ok_def by blast
qed

lemma forward_step_ok_reg:
  "forward_step_ok (\<lambda>q. fst (validateForm_reg q) = Return JTrue) (nextPrev_reg 1)"
proof -
  have "currentTab (snd (nextPrev_reg 1 p)) = currentTab p + 1
        \<and> length (tabs (snd (nextPrev_reg 1 p))) = length (tabs p)
        \<and> has_form (snd (nextPrev_reg 1 p))
        \<and> calls (snd (nextPrev_reg 1 p))
            = calls p @ [if currentTab p + 1 < int (length (tabs p)) then ShowTab (currentTab p + 1) else Submit]"
    if r: "0 \<le> currentTab p" "currentTab p < int (length (tabs p))" and f: "has_form p"
      and v: "fst (validateForm_reg p) = Return JTrue" for p
  proof -
    have v': "validateForm_reg p = (Return JTrue, snd (validateForm_reg p))"
      using v by (cases "validateForm_reg p") simp
    note F = nextPrev_reg_forward [OF v' r]
    show ?thesis
      using F(1,2,3) F(4) F(5) f
      by (cases "currentTab p + 1 < int (length (tabs p))") simp_all
  qed
  then show ?thesis unfolding forward_step_ok_def by blast
qed

text \<open>
  Claim C2. Take a wizard whose form exists, at a step \<open>c \<ge> 0\<close> of its \<open>n\<close> steps, and
  any sequence of \<open>m\<close> presses of the next control with \<open>c + m \<le> n\<close>, the user editing
  the fields before each press, such that the gating validation succeeds at every
  press. Then \<^verbatim>\<open>currentTab\<close> ends at \<open>c + m\<close>, and the calls made are exactly, for the
  \<open>j\<close>-th press, \<^verbatim>\<open>showTab(c + j)\<close> while \<open>c + j < n\<close> and the submission of the form when
  \<open>c + j = n\<close>: one step and one display per press, and the press that reaches \<open>n\<close>
  submits and displays nothing. Stated for the student, the teacher and the
  registration wizard.
\<close>

theorem next_presses_until_submit:
  assumes "0 \<le> currentTab p" and "currentTab p + int (length es) \<le> int (length (tabs p))"
      and "has_form p"
  shows "(all_valid (\<lambda>q. fst (validateForm_student q)) (nextPrev_student 1) es p \<longrightarrow>
            currentTab (press_next_seq (nextPrev_student 1) es p) = currentTab p + int (length es)
          \<and> calls (press_next_seq (nextPrev_student 1) es p)
              = calls p @ forward_calls (currentTab p) (int (length (tabs p))) (length es))
       \<and> (all_valid (\<lambda>q. fst (validateForm_teacher q)) (nextPrev_teacher 1) es p \<longrightarrow>
            currentTab (press_next_seq (nextPrev_teacher 1) es p) = currentTab p + int (length es)
          \<and> calls (press_next_seq (nextPrev_teacher 1) es p)
              = calls p @ forward_calls (currentTab p) (int (length (tabs p))) (length es))
       \<and> (all_valid (\<lambda>q. fst (validateForm_reg q) = Return JTrue) (nextPrev_reg 1) es p \<longrightarrow>
            currentTab (press_next_seq (nextPrev_reg 1) es p) = currentTab p + int (length es)
          \<and> calls (press_next_seq (nextPrev_reg 1) es p)
              = calls p @ forward_calls (currentTab p) (int (length (tabs p))) (length es))"
  using press_next_seq_forward [OF forward_step_ok_student _ assms]
        press_next_seq_forward [OF forward_step_ok_teacher _ assms]
        press_next_seq_forward [OF forward_step_ok_reg _ assms]
  by blast

theorem next_presses_until_submit_witness:
  "0 \<le> currentTab (wizard_example [] [])
   \<and> currentTab (wizard_example [] []) + int (length example_edits) \<le> int (length (tabs (wizard_example [] [])))
   \<and> has_form (wizard_example [] [])
   \<and> all_valid (\<lambda>q. fst (validateForm_student q)) (nextPrev_student 1) example_edits (wizard_example [] [])
   \<and> all_valid (\<lambda>q. fst (validateForm_teacher q)) (nextPrev_teacher 1) example_edits (wizard_example [] [])
   \<and> all_valid (\<lambda>q. fst (validateForm_reg q) = Return JTrue) (nextPrev_reg 1) example_edits (wizard_example [] [])
   \<and> currentTab (press_next_seq (nextPrev_student 1) example_edits (wizard_example [] [])) = 3
   \<and> calls (press_next_seq (nextPrev_student 1) example_edits (wizard_example [] []))
       = [ShowTab 0, ShowTab 1, ShowTab 2, Submit]
   \<and> calls (press_next_seq (nextPrev_teacher 1) example_edits (wizard_example [] []))
       = [ShowTab 0, ShowTab 1, ShowTab 2, Submit]
   \<and> calls (press_next_seq (nextPrev_reg 1) example_edits (wizard_example [] []))
       = [ShowTab 0, ShowTab 1, ShowTab 2, Submit]"
proof -
  have h: "0 \<le> currentTab (wizard_example [] [])"
          "currentTab (wizard_example [] []) + int (length example_edits) \<le> int (length (tabs (wizard_example [] [])))"
          "has_form (wizard_example [] [])"
    by (simp_all add: wizard_example_def example_edits_def)
  have a: "all_valid (\<lambda>q. fst (validateForm_student q)) (nextPrev_student 1) example_edits (wizard_example [] [])"
    by code_simp
  have b: "all_valid (\<lambda>q. fst (validateForm_teacher q)) (nextPrev_teacher 1) example_edits (wizard_example [] [])"
    by code_simp
  have c: "all_valid (\<lambda>q. fst (validateForm_reg q) = Return JTrue) (nextPrev_reg 1) example_edits (wizard_example [] [])"
    by code_simp
  have e: "currentTab (wizard_example [] []) = 0" "calls (wizard_example [] []) = [ShowTab 0]"
          "length example_edits = 3" "int (length (tabs (wizard_example [] []))) = 3"
    by (simp_all add: wizard_example_def example_edits_def)
  have f: "forward_calls 0 3 3 = [ShowTab 1, ShowTab 2, Submit]"
    by (simp add: forward_calls_def upt_rec)
  note T = next_presses_until_submit [OF h]
  show ?thesis using T a b c h e f by simp
qed

section \<open>The pages a wizard can reach\<close>

lemma nextPrev_back_in_range:
  assumes fx: "steps_only fixStep"
      and r: "0 < currentTab p" "currentTab p < int (length (tabs p))"
  shows "currentTab (snd (nextPrev validate fixStep (- 1) p)) = currentTab p - 1"
    and "length (tabs (snd (nextPrev validate fixStep (- 1) p))) = length (tabs p)"
    and "has_form (snd (nextPrev validate fixStep (- 1) p)) = has_form p"
    and "calls (snd (nextPrev validate fixStep (- 1) p)) = calls p @ [ShowTab (currentTab p - 1)]"
    and "prevBtn (snd (nextPrev validate fixStep (- 1) p))
         = map_option (\<lambda>_. if currentTab p - 1 = 0 then ''none'' else ''inline'') (prevBtn p)"
proof -
  have some: "nth_opt (tabs p) (currentTab p) = Some (tabs p ! nat (currentTab p))"
    using r by (simp add: nth_opt_def)
  let ?p3 = "p\<lparr>tabs := (tabs p)[nat (currentTab p) := hide_tab (tabs p ! nat (currentTab p))],
               currentTab := currentTab p - 1\<rparr>"
  have np: "nextPrev validate fixStep (- 1) p = showTab fixStep (currentTab p - 1) ?p3"
    using some r by (simp add: nextPrev_def Let_def)
  have a: "0 \<le> currentTab p - 1" "currentTab p - 1 < int (length (tabs ?p3))"
    using r by simp_all
  show "currentTab (snd (nextPrev validate fixStep (- 1) p)) = currentTab p - 1"
    unfolding np by (simp add: showTab_nav [OF fx])
  show "length (tabs (snd (nextPrev validate fixStep (- 1) p))) = length (tabs p)"
    unfolding np by (simp add: showTab_nav [OF fx])
  show "has_form (snd (nextPrev validate fixStep (- 1) p)) = has_form p"
    unfolding np by (simp add: showTab_nav [OF fx])
  show "calls (snd (nextPrev validate fixStep (- 1) p)) = calls p @ [ShowTab (currentTab p - 1)]"
    unfolding np by (simp add: showTab_nav [OF fx])
  show "prevBtn (snd (nextPrev validate fixStep (- 1) p))
         = map_option (\<lambda>_. if currentTab p - 1 = 0 then ''none'' else ''inline'') (prevBtn p)"
    unfolding np using showTab_in_range(2) [OF fx a] by simp
qed

lemma reachable_invariant:
  assumes fx: "steps_only fixStep" and vf: "\<And>q. nav_frame q (snd (validate q))"
      and ne: "tabs p0 \<noteq> []" and hf: "has_form p0"
  shows "reachable validate fixStep p0 p \<Longrightarrow>
           length (tabs p) = length (tabs p0) \<and> has_form p
           \<and> (wizard_active p \<longrightarrow>
                 0 \<le> currentTab p \<and> currentTab p < int (length (tabs p))
                 \<and> (prev_shown p \<longrightarrow> 0 < currentTab p))"
proof (induction rule: reachable.induct)
  case loaded
  let ?p = "p0\<lparr>currentTab := 0, calls := []\<rparr>"
  have a: "(0::int) \<le> 0" "0 < int (length (tabs ?p))" using ne by simp_all
  have "prevBtn (snd (showTab fixStep 0 ?p)) = map_option (\<lambda>_. ''none'') (prevBtn p0)"
    using showTab_in_range(2) [OF fx a] by simp
  then have "\<not> prev_shown (snd (showTab fixStep 0 ?p))"
    by (simp add: prev_shown_def split: option.splits)
  then show ?case
    using ne hf by (simp add: load_page_def showTab_nav [OF fx])
next
  case (edited p fss os)
  have "prev_shown (user_edit fss os p) = prev_shown p"
       "wizard_active (user_edit fss os p) = wizard_active p"
    by (simp_all add: prev_shown_def wizard_active_def user_edit_nav)
  then show ?case using edited by (simp add: user_edit_nav)
next
  case (next_pressed p)
  then have r: "0 \<le> currentTab p" "currentTab p < int (length (tabs p))"
    and len: "length (tabs p) = length (tabs p0)" and f: "has_form p"
    by simp_all
  obtain v p1 where v: "validate p = (v, p1)" by (cases "validate p")
  have nf: "nav_frame p p1" using vf [of p] v by simp
  show ?case
  proof (cases v)
    case False
    then have np: "snd (nextPrev validate fixStep 1 p) = p1"
      using v by (simp add: nextPrev_invalid)
    have "prev_shown p1 = prev_shown p" "wizard_active p1 = wizard_active p"
         "currentTab p1 = currentTab p" "has_form p1 = has_form p"
      using nf by (simp_all add: prev_shown_def wizard_active_def nav_frame_def)
    then show ?thesis
      unfolding np using next_pressed nav_frame_length [OF nf] by simp
  next
    case True
    then have v': "validate p = (True, p1)" using v by simp
    note F = nextPrev_forward [where validate = validate and p = p, OF fx v' nf r]
    show ?thesis
    proof (cases "currentTab p + 1 < int (length (tabs p))")
      case True
      then show ?thesis using F(1,2,3) r len f by simp
    next
      case False
      then have "\<not> wizard_active (snd (nextPrev validate fixStep 1 p))"
        using F(5) f by (simp add: wizard_active_def)
      then show ?thesis using F(2,3) len f by simp
    qed
  qed
next
  case (prev_pressed p)
  then have r: "0 < currentTab p" "currentTab p < int (length (tabs p))"
    and len: "length (tabs p) = length (tabs p0)" and f: "has_form p"
    by simp_all
  note B = nextPrev_back_in_range [OF fx r, of validate]
  have "prev_shown (snd (nextPrev validate fixStep (- 1) p)) \<longrightarrow> currentTab p - 1 \<noteq> 0"
    unfolding prev_shown_def B(5) by (simp split: option.splits)
  then show ?case using B(1,2,3) r len f by auto
qed

text \<open>
  Claim C8. Take a page with at least one tab whose form exists. In every page the
  student wizard, and likewise the teacher wizard, can reach from the load by edits
  of the fields, presses of the next control and presses of the previous control
  while that control is shown, \<open>0 \<le> currentTab < stepCount\<close> holds as long as the form
  has not been submitted; and wherever the previous control is shown,
  \<open>currentTab > 0\<close>.
\<close>

theorem currentTab_in_range:
  assumes "tabs p0 \<noteq> []" and "has_form p0"
  shows "(reachable validateForm_student fixStepIndicator_student p0 p \<and> wizard_active p \<longrightarrow>
            0 \<le> currentTab p \<and> currentTab p < int (length (tabs p))
            \<and> (prev_shown p \<longrightarrow> 0 < currentTab p))
       \<and> (reachable validateForm_teacher fixStepIndicator_teacher p0 p \<and> wizard_active p \<longrightarrow>
            0 \<le> currentTab p \<and> currentTab p < int (length (tabs p))
            \<and> (prev_shown p \<longrightarrow> 0 < currentTab p))"
  using reachable_invariant [OF steps_only_student same_frame_nav [OF same_frame_validateForm_student] assms, of p]
        reachable_invariant [OF steps_only_teacher nav_frame_validateForm_teacher assms, of p]
  by blast

theorem currentTab_in_range_witness:
  "tabs (wizard_example ''Alice'' []) \<noteq> [] \<and> has_form (wizard_example ''Alice'' [])
   \<and> reachable validateForm_student fixStepIndicator_student (wizard_example ''Alice'' [])
        (snd (nextPrev_student 1 (snd (load_page fixStepIndicator_student (wizard_example ''Alice'' [])))))
   \<and> wizard_active (snd (nextPrev_student 1 (snd (load_page fixStepIndicator_student (wizard_example ''Alice'' [])))))
   \<and> prev_shown (snd (nextPrev_student 1 (snd (load_page fixStepIndicator_student (wizard_example ''Alice'' [])))))
   \<and> currentTab (snd (nextPrev_student 1 (snd (load_page fixStepIndicator_student (wizard_example ''Alice'' []))))) = 1
   \<and> int (length (tabs (snd (nextPrev_student 1 (snd (load_page fixStepIndicator_student (wizard_example ''Alice'' []))))))) = 3
   \<and> reachable validateForm_teacher fixStepIndicator_teacher (wizard_example ''Alice'' [])
        (snd (load_page fixStepIndicator_teacher (wizard_example ''Alice'' [])))
   \<and> wizard_active (snd (load_page fixStepIndicator_teacher (wizard_example ''Alice'' [])))
   \<and> currentTab (snd (load_page fixStepIndicator_teacher (wizard_example ''Alice'' []))) = 0"
proof -
  let ?p0 = "wizard_example ''Alice'' []"
  let ?l = "snd (load_page fixStepIndicator_student ?p0)"
  let ?q = "snd (nextPrev_student 1 ?l)"
  let ?t = "snd (load_page fixStepIndicator_teacher ?p0)"
  have h: "tabs ?p0 \<noteq> []" "has_form ?p0" by (simp_all add: wizard_example_def)
  have al: "wizard_active ?l" by code_simp
  have aq: "wizard_active ?q" by code_simp
  have sq: "prev_shown ?q" by code_simp
  have cq: "currentTab ?q = 1" by code_simp
  have lq: "int (length (tabs ?q)) = 3" by code_simp
  have rl: "reachable validateForm_student fixStepIndicator_student ?p0 ?l"
    by (rule reachable.loaded)
  have rq: "reachable validateForm_student fixStepIndicator_student ?p0 ?q"
    unfolding nextPrev_student_def by (rule reachable.next_pressed [OF rl al])
  have rt: "reachable validateForm_teacher fixStepIndicator_teacher ?p0 ?t"
    by (rule reachable.loaded)
  have at: "wizard_active ?t" by code_simp
  have ct: "currentTab ?t = 0" by code_simp
  have "0 \<le> currentTab ?q \<and> currentTab ?q < int (length (tabs ?q)) \<and> 0 < currentTab ?q"
    using currentTab_in_range [OF h, of ?q] rq aq sq by blast
  moreover have "0 \<le> currentTab ?t \<and> currentTab ?t < int (length (tabs ?t))"
    using currentTab_in_range [OF h, of ?t] rt at by blast
  ultimately show ?thesis using h rq aq sq cq lq rt at ct by simp
qed

section \<open>The loop of the student wizard's validation\<close>

lemma same_fields_refl: "same_fields p p"
  by (simp add: same_fields_def)

lemma same_fields_trans: "same_fields p q \<Longrightarrow> same_fields q r \<Longrightarrow> same_fields p r"
  by (simp add: same_fields_def)

lemma same_fields_length:
  assumes "same_fields p p'"
  shows "length (tabs p') = length (tabs p)"
    and "t < length (tabs p) \<Longrightarrow> length (inputs (tabs p' ! t)) = length (inputs (tabs p ! t))"
proof -
  have m: "map (\<lambda>t. map unmark (inputs t)) (tabs p') = map (\<lambda>t. map unmark (inputs t)) (tabs p)"
    using assms by (simp add: same_fields_def)
  show l: "length (tabs p') = length (tabs p)" using m by (rule map_eq_imp_length_eq)
  show "length (inputs (tabs p' ! t)) = length (inputs (tabs p ! t))" if "t < length (tabs p)"
  proof -
    have "map (\<lambda>t. map unmark (inputs t)) (tabs p') ! t = map (\<lambda>t. map unmark (inputs t)) (tabs p) ! t"
      using m by simp
    then have "map unmark (inputs (tabs p' ! t)) = map unmark (inputs (tabs p ! t))"
      using that l by simp
    then show ?thesis by (rule map_eq_imp_length_eq)
  qed
qed

lemma same_fields_unmark:
  assumes "same_fields p p'" and "t < length (tabs p)" and "i < length (inputs (tabs p ! t))"
  shows "unmark (field_at p' t i) = unmark (field_at p t i)"
proof -
  have m: "map (\<lambda>t. map unmark (inputs t)) (tabs p') = map (\<lambda>t. map unmark (inputs t)) (tabs p)"
    using assms(1) by (simp add: same_fields_def)
  have l: "length (tabs p') = length (tabs p)" using m by (rule map_eq_imp_length_eq)
  have "map (\<lambda>t. map unmark (inputs t)) (tabs p') ! t = map (\<lambda>t. map unmark (inputs t)) (tabs p) ! t"
    using m by simp
  then have e: "map unmark (inputs (tabs p' ! t)) = map unmark (inputs (tabs p ! t))"
    using assms(2) l by simp
  have l2: "length (inputs (tabs p' ! t)) = length (inputs (tabs p ! t))"
    using e by (rule map_eq_imp_length_eq)
  have "map unmark (inputs (tabs p' ! t)) ! i = map unmark (inputs (tabs p ! t)) ! i"
    using e by simp
  then show ?thesis using assms(3) l2 by (simp add: field_at_def)
qed

lemma unmark_attrs:
  "unmark f' = unmark f \<Longrightarrow>
     required f' = required f \<and> ftype f' = ftype f \<and> fvalue f' = fvalue f \<and> name_attr f' = name_attr f
     \<and> tag f' = tag f \<and> checked f' = checked f"
  unfolding unmark_def
  by (metis field.select_convs(1,2,3,4,5,6) field.surjective field.update_convs(7))

lemma unmark_preds:
  assumes "unmark f' = unmark f"
  shows "blank_required f' = blank_required f" "name_prop f' = name_prop f"
        "in_group nm f' = in_group nm f" "checked f' = checked f" "required f' = required f"
        "ftype f' = ftype f"
  using unmark_attrs [OF assms] by (simp_all add: blank_required_def name_prop_def in_group_def)

lemma all_fields_unmark:
  "same_fields p p' \<Longrightarrow> map unmark (all_fields p') = map unmark (all_fields p)"
proof -
  assume a: "same_fields p p'"
  have "map unmark (all_fields q) = concat (map (\<lambda>t. map unmark (inputs t)) (tabs q)) @ map unmark (others q)" for q
    by (simp add: all_fields_def map_concat comp_def)
  then show ?thesis using a by (simp add: same_fields_def)
qed

lemma list_ex_unmark:
  "list_ex (\<lambda>r. in_group nm r \<and> checked r) fs = list_ex (\<lambda>r. in_group nm r \<and> checked r) (map unmark fs)"
  by (induction fs) (simp_all add: in_group_def unmark_def)

lemma same_fields_group_checked:
  "same_fields p p' \<Longrightarrow> group_checked p' nm = group_checked p nm"
  unfolding group_checked_def
  using list_ex_unmark [of nm "all_fields p'"] list_ex_unmark [of nm "all_fields p"] all_fields_unmark [of p p']
  by simp

lemma same_fields_preds:
  assumes "same_fields p p'" and "t < length (tabs p)" and "i < length (inputs (tabs p ! t))"
  shows "blank_required (field_at p' t i) = blank_required (field_at p t i)"
    and "name_prop (field_at p' t i) = name_prop (field_at p t i)"
    and "in_group nm (field_at p' t i) = in_group nm (field_at p t i)"
    and "radio_unchecked p' (field_at p' t i) = radio_unchecked p (field_at p t i)"
    and "required (field_at p' t i) = required (field_at p t i)"
    and "ftype (field_at p' t i) = ftype (field_at p t i)"
  using unmark_preds [OF same_fields_unmark [OF assms]] same_fields_group_checked [OF assms(1)]
  by (simp_all add: radio_unchecked_def)

lemma unmark_invalid [simp]:
  "unmark (remove_invalid f) = unmark f" "unmark (add_invalid f) = unmark f"
  by (simp_all add: unmark_def remove_invalid_def add_invalid_def)

lemma marked_remove_invalid [simp]: "\<not> marked_invalid (remove_invalid f)"
  by (simp add: marked_invalid_def remove_invalid_def has_class_remove)

lemma marked_add_invalid [simp]: "marked_invalid (add_invalid f)"
  using tok_invalid by (simp add: marked_invalid_def add_invalid_def has_class_add)

lemma map_unmark_update:
  assumes "\<And>f. unmark (g f) = unmark f"
  shows "map unmark (fs[i := g (fs ! i)]) = map unmark fs"
proof (cases "i < length fs")
  case True
  then show ?thesis by (simp add: map_update assms list_update_same_conv)
next
  case False
  then show ?thesis by (simp add: list_update_beyond)
qed

lemma same_fields_update_field:
  assumes "\<And>f. unmark (g f) = unmark f"
  shows "same_fields p (update_field t i g p)"
proof (cases "t < length (tabs p)")
  case True
  have u: "map unmark ((inputs (tabs p ! t))[i := g (inputs (tabs p ! t) ! i)]) = map unmark (inputs (tabs p ! t))"
    by (rule map_unmark_update [OF assms])
  have "map (\<lambda>t. map unmark (inputs t))
          ((tabs p)[t := (tabs p ! t)\<lparr>inputs := (inputs (tabs p ! t))[i := g (inputs (tabs p ! t) ! i)]\<rparr>])
        = (map (\<lambda>t. map unmark (inputs t)) (tabs p))[t := map unmark (inputs (tabs p ! t))]"
    unfolding map_update using u by simp
  also have "\<dots> = map (\<lambda>t. map unmark (inputs t)) (tabs p)"
    using True by (simp add: list_update_same_conv)
  finally show ?thesis by (simp add: same_fields_def update_field_def)
next
  case False
  then show ?thesis by (simp add: same_fields_def update_field_def list_update_beyond)
qed

lemma same_fields_map_fields:
  assumes "\<And>f. unmark (g f) = unmark f"
  shows "same_fields p (map_fields g p)"
  by (simp add: same_fields_def map_fields_def comp_def assms)

lemma field_at_update_field:
  assumes "t < length (tabs p)" and "i < length (inputs (tabs p ! t))"
  shows "field_at (update_field t i g p) t j = (if j = i then g (field_at p t i) else field_at p t j)"
  using assms by (simp add: field_at_def update_field_def)

lemma field_at_map_fields:
  assumes "t < length (tabs p)" and "j < length (inputs (tabs p ! t))"
  shows "field_at (map_fields g p) t j = g (field_at p t j)"
  using assms by (simp add: field_at_def map_fields_def)

lemma update_field_length:
  "length (tabs (update_field t i g p)) = length (tabs p)"
  "t < length (tabs p) \<Longrightarrow> length (inputs (tabs (update_field t i g p) ! t)) = length (inputs (tabs p ! t))"
  by (simp_all add: update_field_def)

text \<open>One round of the student wizard's loop.\<close>

lemma validate_field_student_step:
  fixes v :: bool and p :: page and t i :: nat
  assumes t: "t < length (tabs p)" and i: "i < length (inputs (tabs p ! t))"
  defines "f \<equiv> field_at p t i"
  defines "r \<equiv> validate_field_student t i (v, p)"
  shows "same_fields p (snd r)"
    and "fst r = (v \<and> \<not> blank_required f \<and> \<not> radio_unchecked p f)"
    and "j < length (inputs (tabs p ! t)) \<Longrightarrow>
           marked_invalid (field_at (snd r) t j)
           = (if j = i then blank_required f \<or> (radio_unchecked p f \<and> in_group (name_prop f) f)
              else marked_invalid (field_at p t j)
                   \<or> (radio_unchecked p f \<and> in_group (name_prop f) (field_at p t j)))"
proof -
  let ?p1 = "update_field t i remove_invalid p"
  let ?input = "inputs (tabs ?p1 ! t) ! i"
  let ?mark = "\<lambda>r. if in_group (name_prop f) r then add_invalid r else r"
  have sf1: "same_fields p ?p1" by (rule same_fields_update_field) simp
  have inp: "?input = remove_invalid f"
    using field_at_update_field [OF t i, of remove_invalid i] by (simp add: field_at_def f_def)
  have attrs: "required ?input = required f" "ftype ?input = ftype f" "fvalue ?input = fvalue f"
              "name_prop ?input = name_prop f"
    unfolding inp by (simp_all add: remove_invalid_def name_prop_def)
  have gc: "list_ex (\<lambda>r. in_group (name_prop f) r \<and> checked r) (all_fields ?p1) = group_checked p (name_prop f)"
    using same_fields_group_checked [OF sf1, of "name_prop f"] by (simp add: group_checked_def)
  have l1: "t < length (tabs ?p1)" "i < length (inputs (tabs ?p1 ! t))"
    using t i by (simp_all add: update_field_length)
  have r_eq: "r = (if required f then
                     if ftype f = ''radio'' then
                       if \<not> group_checked p (name_prop f) then (False, map_fields ?mark ?p1) else (v, ?p1)
                     else if fvalue f = [] \<or> js_trim (fvalue f) = [] then (False, update_field t i add_invalid ?p1)
                     else (v, ?p1)
                   else (v, ?p1))"
    unfolding r_def validate_field_student_def by (simp add: Let_def attrs gc)
  have sf2: "same_fields p (map_fields ?mark ?p1)"
    by (rule same_fields_trans [OF sf1]) (rule same_fields_map_fields, simp)
  have sf3: "same_fields p (update_field t i add_invalid ?p1)"
    by (rule same_fields_trans [OF sf1]) (rule same_fields_update_field, simp)
  show "same_fields p (snd r)"
    unfolding r_eq using sf1 sf2 sf3 by simp
  show "fst r = (v \<and> \<not> blank_required f \<and> \<not> radio_unchecked p f)"
    unfolding r_eq by (auto simp: blank_required_def radio_unchecked_def)
  show "marked_invalid (field_at (snd r) t j)
           = (if j = i then blank_required f \<or> (radio_unchecked p f \<and> in_group (name_prop f) f)
              else marked_invalid (field_at p t j)
                   \<or> (radio_unchecked p f \<and> in_group (name_prop f) (field_at p t j)))"
    if j: "j < length (inputs (tabs p ! t))"
  proof -
    have j1: "j < length (inputs (tabs ?p1 ! t))" using j t by (simp add: update_field_length)
    have a: "field_at ?p1 t j = (if j = i then remove_invalid f else field_at p t j)"
      using field_at_update_field [OF t i, of remove_invalid j] by (simp add: f_def)
    have b: "field_at (map_fields ?mark ?p1) t j = ?mark (field_at ?p1 t j)"
      by (rule field_at_map_fields [OF l1(1) j1])
    have c: "field_at (update_field t i add_invalid ?p1) t j
             = (if j = i then add_invalid (field_at ?p1 t i) else field_at ?p1 t j)"
      by (rule field_at_update_field [OF l1])
    have g: "in_group nm (remove_invalid f) = in_group nm f" for nm
      by (simp add: in_group_def remove_invalid_def)
    show ?thesis
    proof (cases "j = i")
      case True
      have a': "field_at ?p1 t i = remove_invalid f" using a True by simp
      have b': "field_at (map_fields ?mark ?p1) t i = ?mark (remove_invalid f)" using b a' True by simp
      have c': "field_at (update_field t i add_invalid ?p1) t i = add_invalid (remove_invalid f)"
        using c a' True by simp
      show ?thesis
        unfolding r_eq using True
        by (simp add: a' b' c' g blank_required_def radio_unchecked_def)
    next
      case False
      have a': "field_at ?p1 t j = field_at p t j" using a False by simp
      have b': "field_at (map_fields ?mark ?p1) t j = ?mark (field_at p t j)" using b a' by simp
      have c': "field_at (update_field t i add_invalid ?p1) t j = field_at p t j"
        using c a' False by simp
      show ?thesis
        unfolding r_eq using False
        by (simp add: a' b' c' blank_required_def radio_unchecked_def)
    qed
  qed
qed

text \<open>The first \<open>k\<close> rounds of the loop.\<close>

lemma validate_fold_student:
  fixes p :: page and t :: nat
  defines "n \<equiv> length (inputs (tabs p ! t))"
  defines "F \<equiv> \<lambda>k. fold (validate_field_student t) [0..<k] (True, p)"
  defines "bad \<equiv> \<lambda>i. blank_required (field_at p t i) \<or> radio_unchecked p (field_at p t i)"
  defines "hit \<equiv> \<lambda>i j. radio_unchecked p (field_at p t i) \<and> in_group (name_prop (field_at p t i)) (field_at p t j)"
  assumes t: "t < length (tabs p)"
  shows "k \<le> n \<Longrightarrow>
           same_fields p (snd (F k))
           \<and> fst (F k) = (\<forall>i<k. \<not> bad i)
           \<and> (\<forall>j<n. marked_invalid (field_at (snd (F k)) t j)
                       = (if j < k then blank_required (field_at p t j) \<or> (\<exists>i. j \<le> i \<and> i < k \<and> hit i j)
                          else marked_invalid (field_at p t j) \<or> (\<exists>i<k. hit i j)))"
proof (induction k)
  case 0
  show ?case by (simp add: F_def same_fields_refl)
next
  case (Suc k)
  then have kn: "k < n" and IH: "same_fields p (snd (F k))" "fst (F k) = (\<forall>i<k. \<not> bad i)"
    "\<And>j. j < n \<Longrightarrow> marked_invalid (field_at (snd (F k)) t j)
                       = (if j < k then blank_required (field_at p t j) \<or> (\<exists>i. j \<le> i \<and> i < k \<and> hit i j)
                          else marked_invalid (field_at p t j) \<or> (\<exists>i<k. hit i j))"
    by simp_all
  obtain v q where Fk: "F k = (v, q)" by (cases "F k")
  have sf: "same_fields p q" using IH(1) Fk by simp
  have tq: "t < length (tabs q)" using same_fields_length(1) [OF sf] t by simp
  have nq: "length (inputs (tabs q ! t)) = n"
    using same_fields_length(2) [OF sf t] by (simp add: n_def)
  have kq: "k < length (inputs (tabs q ! t))" using kn nq by simp
  have FS: "F (Suc k) = validate_field_student t k (v, q)"
    using Fk by (simp add: F_def)
  note S = validate_field_student_step [OF tq kq, where v = v]
  note P = same_fields_preds [OF sf t, unfolded n_def [symmetric]]
  have bq: "blank_required (field_at q t k) = blank_required (field_at p t k)"
           "radio_unchecked q (field_at q t k) = radio_unchecked p (field_at p t k)"
           "name_prop (field_at q t k) = name_prop (field_at p t k)"
    using P(1,4,2) [OF kn] by simp_all
  have 1: "same_fields p (snd (F (Suc k)))"
    unfolding FS by (rule same_fields_trans [OF sf S(1)])
  have 2: "fst (F (Suc k)) = (\<forall>i<Suc k. \<not> bad i)"
    unfolding FS S(2) bq using IH(2) Fk by (auto simp: bad_def less_Suc_eq)
  have 3: "marked_invalid (field_at (snd (F (Suc k))) t j)
             = (if j < Suc k then blank_required (field_at p t j) \<or> (\<exists>i. j \<le> i \<and> i < Suc k \<and> hit i j)
                else marked_invalid (field_at p t j) \<or> (\<exists>i<Suc k. hit i j))"
    if j: "j < n" for j
  proof -
    have jq: "j < length (inputs (tabs q ! t))" using j nq by simp
    have gj: "in_group nm (field_at q t j) = in_group nm (field_at p t j)" for nm
      using P(3) [OF j] by simp
    have m: "marked_invalid (field_at (snd (F (Suc k))) t j)
             = (if j = k then blank_required (field_at p t k) \<or> hit k k
                else marked_invalid (field_at q t j) \<or> hit k j)"
      unfolding FS S(3) [OF jq] bq gj using P(3) [OF kn] by (simp add: hit_def)
    have q_mark: "marked_invalid (field_at q t j)
                  = (if j < k then blank_required (field_at p t j) \<or> (\<exists>i. j \<le> i \<and> i < k \<and> hit i j)
                     else marked_invalid (field_at p t j) \<or> (\<exists>i<k. hit i j))"
      using IH(3) [OF j] Fk by simp
    show ?thesis
    proof (cases "j = k")
      case True
      have "(\<exists>i. k \<le> i \<and> i < Suc k \<and> hit i k) = hit k k"
        by (metis le_less_Suc_eq less_Suc_eq_le order_refl)
      then show ?thesis using m True by simp
    next
      case False
      show ?thesis
      proof (cases "j < k")
        case True
        have "(\<exists>i. j \<le> i \<and> i < Suc k \<and> hit i j) = ((\<exists>i. j \<le> i \<and> i < k \<and> hit i j) \<or> hit k j)"
          using True by (metis less_Suc_eq less_imp_le_nat)
        then show ?thesis using m q_mark True False by auto
      next
        case F2: False
        have "(\<exists>i<Suc k. hit i j) = ((\<exists>i<k. hit i j) \<or> hit k j)"
          by (metis less_Suc_eq)
        then show ?thesis using m q_mark F2 False by auto
      qed
    qed
  qed
  show ?case using 1 2 3 by blast
qed

lemma focus_first_invalid_fields:
  "tabs (focus_first_invalid t p) = tabs p" "others (focus_first_invalid t p) = others p"
  by (simp_all add: focus_first_invalid_def split: option.splits)

lemma validateForm_student_spec:
  fixes p :: page
  defines "t \<equiv> nat (currentTab p)"
  defines "n \<equiv> length (inputs (tabs p ! t))"
  assumes r: "0 \<le> currentTab p" "currentTab p < int (length (tabs p))"
  shows "fst (validateForm_student p)
         = (\<forall>i<n. \<not> blank_required (field_at p t i) \<and> \<not> radio_unchecked p (field_at p t i))"
    and "same_fields p (snd (validateForm_student p))"
    and "j < n \<Longrightarrow> marked_invalid (field_at (snd (validateForm_student p)) t j)
           = (blank_required (field_at p t j)
              \<or> (\<exists>i. j \<le> i \<and> i < n \<and> radio_unchecked p (field_at p t i)
                       \<and> in_group (name_prop (field_at p t i)) (field_at p t j)))"
proof -
  have tl: "t < length (tabs p)" using r by (simp add: t_def)
  let ?F = "fold (validate_field_student t) [0..<n] (True, p)"
  have some: "nth_opt (tabs p) (currentTab p) = Some (tabs p ! t)"
    using r by (simp add: nth_opt_def t_def)
  have vf: "validateForm_student p = (fst ?F, focus_first_invalid t (snd ?F))"
    using some by (simp add: validateForm_student_def Let_def split_beta t_def n_def)
  note L = validate_fold_student [OF tl, of n, unfolded n_def [symmetric], simplified]
  have sf: "same_fields (snd ?F) (focus_first_invalid t (snd ?F))"
    by (simp add: same_fields_def focus_first_invalid_fields)
  show "fst (validateForm_student p)
         = (\<forall>i<n. \<not> blank_required (field_at p t i) \<and> \<not> radio_unchecked p (field_at p t i))"
    unfolding vf using L by simp
  show "same_fields p (snd (validateForm_student p))"
    unfolding vf using L sf same_fields_trans by auto
  show "marked_invalid (field_at (snd (validateForm_student p)) t j)
           = (blank_required (field_at p t j)
              \<or> (\<exists>i. j \<le> i \<and> i < n \<and> radio_unchecked p (field_at p t i)
                       \<and> in_group (name_prop (field_at p t i)) (field_at p t j)))"
    if "j < n"
    unfolding vf using L that by (simp add: field_at_def focus_first_invalid_fields)
qed

section \<open>The validation of the teacher and the registration wizard\<close>

lemma list_ex_nth: "list_ex P xs = (\<exists>i<length xs. P (xs ! i))"
  unfolding list_ex_iff by (metis in_set_conv_nth)

lemma marked_validate_field_teacher:
  "marked_invalid (validate_field_teacher f) = (required f \<and> fvalue f = [])"
  by (simp add: validate_field_teacher_def)

lemma validateForm_teacher_spec:
  fixes p :: page
  defines "t \<equiv> nat (currentTab p)"
  defines "n \<equiv> length (inputs (tabs p ! t))"
  assumes r: "0 \<le> currentTab p" "currentTab p < int (length (tabs p))"
  shows "fst (validateForm_teacher p)
         = (\<forall>i<n. \<not> (required (field_at p t i) \<and> fvalue (field_at p t i) = []))"
    and "j < n \<Longrightarrow> marked_invalid (field_at (snd (validateForm_teacher p)) t j)
           = (required (field_at p t j) \<and> fvalue (field_at p t j) = [])"
    and "fst (validateForm_teacher p) \<Longrightarrow> t < length (steps p)
           \<Longrightarrow> has_class (steps (snd (validateForm_teacher p)) ! t) ''finish''"
proof -
  have tl: "t < length (tabs p)" using r by (simp add: t_def)
  let ?tb = "tabs p ! t"
  let ?valid = "\<not> list_ex (\<lambda>input. required input \<and> fvalue input = []) (inputs ?tb)"
  let ?p1 = "p\<lparr>tabs := (tabs p)[t := ?tb\<lparr>inputs := map validate_field_teacher (inputs ?tb)\<rparr>]\<rparr>"
  have some: "nth_opt (tabs p) (currentTab p) = Some ?tb"
    using r by (simp add: nth_opt_def t_def)
  have vf: "validateForm_teacher p
            = (if ?valid then (True, case nth_opt (steps p) (currentTab p) of
                                       None \<Rightarrow> ?p1
                                     | Some c \<Rightarrow> ?p1\<lparr>steps := (steps p)[t := classList_add c ''finish'']\<rparr>)
               else (False, ?p1))"
    using some by (simp add: validateForm_teacher_def Let_def t_def split: option.splits)
  have tabs': "tabs (snd (validateForm_teacher p)) = tabs ?p1"
    unfolding vf by (simp split: option.splits)
  show "fst (validateForm_teacher p)
         = (\<forall>i<n. \<not> (required (field_at p t i) \<and> fvalue (field_at p t i) = []))"
    unfolding vf by (auto simp: list_ex_nth field_at_def n_def)
  show "marked_invalid (field_at (snd (validateForm_teacher p)) t j)
           = (required (field_at p t j) \<and> fvalue (field_at p t j) = [])" if "j < n"
    using that tl by (simp add: field_at_def tabs' n_def marked_validate_field_teacher)
  show "has_class (steps (snd (validateForm_teacher p)) ! t) ''finish''"
    if v: "fst (validateForm_teacher p)" and s: "t < length (steps p)"
  proof -
    have valid: ?valid using v unfolding vf by (simp split: if_splits)
    have sm: "nth_opt (steps p) (currentTab p) = Some (steps p ! t)"
      using s r by (simp add: nth_opt_def t_def)
    have "steps (snd (validateForm_teacher p)) = (steps p)[t := classList_add (steps p ! t) ''finish'']"
      unfolding vf using valid sm by simp
    then show ?thesis using s tok_finish by (simp add: has_class_add)
  qed
qed

lemma marked_validate_field_reg:
  "marked_invalid (validate_field_reg y) = (marked_invalid y \<or> fvalue y = [])"
proof -
  have "has_class (fclass y @ CHR '' '' # ''invalid'') ''invalid''"
    using tok_invalid by (simp add: has_class_append)
  then show ?thesis by (simp add: validate_field_reg_def marked_invalid_def)
qed

lemma validateForm_reg_spec:
  fixes p :: page
  defines "t \<equiv> nat (currentTab p)"
  defines "n \<equiv> length (inputs (tabs p ! t))"
  assumes r: "0 \<le> currentTab p" "currentTab p < int (length (tabs p))"
  shows "fst (validateForm_reg p)
         = (if \<exists>i<n. tag (field_at p t i) = Input \<and> fvalue (field_at p t i) = [] then Return JFalse
            else if t < length (steps p) then Return JTrue else Throw)"
    and "j < n \<Longrightarrow> marked_invalid (field_at (snd (validateForm_reg p)) t j)
           = (marked_invalid (field_at p t j)
              \<or> (tag (field_at p t j) = Input \<and> fvalue (field_at p t j) = []))"
    and "fst (validateForm_reg p) = Return JTrue
           \<Longrightarrow> t < length (steps p) \<and> has_class (steps (snd (validateForm_reg p)) ! t) ''finish''"
proof -
  have tl: "t < length (tabs p)" using r by (simp add: t_def)
  let ?tb = "tabs p ! t"
  let ?valid = "\<not> list_ex (\<lambda>y. tag y = Input \<and> fvalue y = []) (inputs ?tb)"
  let ?p1 = "p\<lparr>tabs := (tabs p)[t := ?tb\<lparr>inputs := map (\<lambda>y. if tag y = Input then validate_field_reg y else y)
                                                         (inputs ?tb)\<rparr>]\<rparr>"
  have some: "nth_opt (tabs p) (currentTab p) = Some ?tb"
    using r by (simp add: nth_opt_def t_def)
  have so: "nth_opt (steps p) (currentTab p) = (if t < length (steps p) then Some (steps p ! t) else None)"
    using r by (simp add: nth_opt_def t_def nat_less_iff)
  have vf: "validateForm_reg p
            = (if ?valid then (if t < length (steps p)
                               then (Return JTrue, ?p1\<lparr>steps := (steps p)[t := steps p ! t @ '' finish'']\<rparr>)
                               else (Throw, ?p1))
               else (Return JFalse, ?p1))"
    using some so by (simp add: validateForm_reg_def Let_def t_def)
  have tabs': "tabs (snd (validateForm_reg p)) = tabs ?p1"
    unfolding vf by simp
  show "fst (validateForm_reg p)
         = (if \<exists>i<n. tag (field_at p t i) = Input \<and> fvalue (field_at p t i) = [] then Return JFalse
            else if t < length (steps p) then Return JTrue else Throw)"
    unfolding vf by (auto simp: list_ex_nth field_at_def n_def)
  show "marked_invalid (field_at (snd (validateForm_reg p)) t j)
           = (marked_invalid (field_at p t j)
              \<or> (tag (field_at p t j) = Input \<and> fvalue (field_at p t j) = []))" if "j < n"
    using that tl by (simp add: field_at_def tabs' n_def marked_validate_field_reg)
  show "t < length (steps p) \<and> has_class (steps (snd (validateForm_reg p)) ! t) ''finish''"
    if v: "fst (validateForm_reg p) = Return JTrue"
  proof -
    have a: ?valid "t < length (steps p)" using v unfolding vf by (simp_all split: if_splits)
    have "steps (snd (validateForm_reg p)) = (steps p)[t := steps p ! t @ '' finish'']"
      unfolding vf using a by simp
    moreover have "has_class (steps p ! t @ CHR '' '' # ''finish'') ''finish''"
      using tok_finish by (simp add: has_class_append)
    ultimately show ?thesis using a(2) by simp
  qed
qed

lemma validateForm_reg_in_range:
  "fst (validateForm_reg p) \<noteq> Throw \<Longrightarrow> 0 \<le> currentTab p \<and> currentTab p < int (length (tabs p))"
proof (cases "nth_opt (tabs p) (currentTab p)")
  case None
  assume "fst (validateForm_reg p) \<noteq> Throw"
  then show ?thesis using None by (simp add: validateForm_reg_def)
next
  case (Some tb)
  then show ?thesis by (simp add: nth_opt_Some)
qed

lemma steps_validateForm_student: "steps (snd (validateForm_student p)) = steps p"
  using same_frame_validateForm_student [of p] by (simp add: same_frame_def)

section \<open>Which fields fail validation\<close>

text \<open>
  Claim C3, as amended. For a wizard within its steps, with \<open>t\<close> the current step:
  \<^item> student wizard, on a page whose required radio buttons of the step have plain
    names (no double quote, backslash, line break or NUL, so that the selector built
    from the name selects the \<^verbatim>\<open>input\<close> elements of that name): validation fails
    exactly when some field of the step is required, not a radio button and blank
    (empty or white space only), or is a required radio button whose named group has no
    checked member. Every such blank field, and every such radio button that is an
    \<^verbatim>\<open>input\<close> with a \<^verbatim>\<open>name\<close>, is marked invalid; a field that is not
    blank-and-required and does not share the name of such a radio button is not
    marked;
  \<^item> teacher wizard: validation fails exactly when some field is required and has the
    empty value (radio buttons too, whatever is checked), and marks exactly these;
  \<^item> registration wizard: validation fails exactly when some \<^verbatim>\<open>input\<close> element has the
    empty value, required or not, and a field is marked afterwards exactly when it was
    marked before or is such an \<^verbatim>\<open>input\<close>.
\<close>

theorem validateForm_fails_on_required_empty:
  fixes p :: page
  defines "t \<equiv> nat (currentTab p)"
  defines "n \<equiv> length (inputs (tabs p ! nat (currentTab p)))"
  assumes "0 \<le> currentTab p" and "currentTab p < int (length (tabs p))"
  shows "(radio_names_plain p \<longrightarrow>
            (fst (validateForm_student p)
               \<longleftrightarrow> (\<forall>i<n. \<not> blank_required (field_at p t i) \<and> \<not> radio_unchecked p (field_at p t i)))
          \<and> (\<forall>j<n. (blank_required (field_at p t j)
                        \<longrightarrow> marked_invalid (field_at (snd (validateForm_student p)) t j))
                   \<and> (radio_unchecked p (field_at p t j) \<and> in_group (name_prop (field_at p t j)) (field_at p t j)
                        \<longrightarrow> marked_invalid (field_at (snd (validateForm_student p)) t j))
                   \<and> (\<not> blank_required (field_at p t j)
                        \<and> (\<forall>i<n. radio_unchecked p (field_at p t i)
                                    \<longrightarrow> \<not> in_group (name_prop (field_at p t i)) (field_at p t j))
                        \<longrightarrow> \<not> marked_invalid (field_at (snd (validateForm_student p)) t j))))
       \<and> (fst (validateForm_teacher p)
            \<longleftrightarrow> (\<forall>i<n. \<not> (required (field_at p t i) \<and> fvalue (field_at p t i) = [])))
       \<and> (\<forall>j<n. marked_invalid (field_at (snd (validateForm_teacher p)) t j)
                  \<longleftrightarrow> required (field_at p t j) \<and> fvalue (field_at p t j) = [])
       \<and> (fst (validateForm_reg p) = Return JFalse
            \<longleftrightarrow> (\<exists>i<n. tag (field_at p t i) = Input \<and> fvalue (field_at p t i) = []))
       \<and> (\<forall>j<n. marked_invalid (field_at (snd (validateForm_reg p)) t j)
                  \<longleftrightarrow> marked_invalid (field_at p t j)
                      \<or> (tag (field_at p t j) = Input \<and> fvalue (field_at p t j) = []))"
proof -
  note S = validateForm_student_spec [OF assms(3,4), folded t_def n_def]
  note T = validateForm_teacher_spec [OF assms(3,4), folded t_def n_def]
  note R = validateForm_reg_spec [OF assms(3,4), folded t_def n_def]
  have s1: "fst (validateForm_student p)
            \<longleftrightarrow> (\<forall>i<n. \<not> blank_required (field_at p t i) \<and> \<not> radio_unchecked p (field_at p t i))"
    by (rule S(1))
  have s2: "\<forall>j<n. (blank_required (field_at p t j)
                     \<longrightarrow> marked_invalid (field_at (snd (validateForm_student p)) t j))
                \<and> (radio_unchecked p (field_at p t j) \<and> in_group (name_prop (field_at p t j)) (field_at p t j)
                     \<longrightarrow> marked_invalid (field_at (snd (validateForm_student p)) t j))
                \<and> (\<not> blank_required (field_at p t j)
                     \<and> (\<forall>i<n. radio_unchecked p (field_at p t i)
                                 \<longrightarrow> \<not> in_group (name_prop (field_at p t i)) (field_at p t j))
                     \<longrightarrow> \<not> marked_invalid (field_at (snd (validateForm_student p)) t j))"
  proof (intro allI impI)
    fix j assume j: "j < n"
    show "(blank_required (field_at p t j)
                     \<longrightarrow> marked_invalid (field_at (snd (validateForm_student p)) t j))
                \<and> (radio_unchecked p (field_at p t j) \<and> in_group (name_prop (field_at p t j)) (field_at p t j)
                     \<longrightarrow> marked_invalid (field_at (snd (validateForm_student p)) t j))
                \<and> (\<not> blank_required (field_at p t j)
                     \<and> (\<forall>i<n. radio_unchecked p (field_at p t i)
                                 \<longrightarrow> \<not> in_group (name_prop (field_at p t i)) (field_at p t j))
                     \<longrightarrow> \<not> marked_invalid (field_at (snd (validateForm_student p)) t j))"
      unfolding S(3) [OF j] using j by blast
  qed
  have t1: "fst (validateForm_teacher p)
            \<longleftrightarrow> (\<forall>i<n. \<not> (required (field_at p t i) \<and> fvalue (field_at p t i) = []))"
    by (rule T(1))
  have t2: "\<forall>j<n. marked_invalid (field_at (snd (validateForm_teacher p)) t j)
                  \<longleftrightarrow> required (field_at p t j) \<and> fvalue (field_at p t j) = []"
    using T(2) by blast
  have r1: "fst (validateForm_reg p) = Return JFalse
            \<longleftrightarrow> (\<exists>i<n. tag (field_at p t i) = Input \<and> fvalue (field_at p t i) = [])"
    unfolding R(1) by simp
  have r2: "\<forall>j<n. marked_invalid (field_at (snd (validateForm_reg p)) t j)
                  \<longleftrightarrow> marked_invalid (field_at p t j)
                      \<or> (tag (field_at p t j) = Input \<and> fvalue (field_at p t j) = [])"
    using R(2) by blast
  show ?thesis using s1 s2 t1 t2 r1 r2 by blast
qed

theorem validateForm_fails_on_required_empty_witness:
  "0 \<le> currentTab blank_example
   \<and> currentTab blank_example < int (length (tabs blank_example))
   \<and> radio_names_plain blank_example
   \<and> blank_required (field_at blank_example 0 0)
   \<and> \<not> blank_required (field_at blank_example 0 1)
   \<and> radio_unchecked blank_example (field_at blank_example 0 2)
   \<and> name_prop (field_at blank_example 0 2) = ''yeargroup''
   \<and> \<not> fst (validateForm_student blank_example)
   \<and> marked_invalid (field_at (snd (validateForm_student blank_example)) 0 0)
   \<and> \<not> marked_invalid (field_at (snd (validateForm_student blank_example)) 0 1)
   \<and> marked_invalid (field_at (snd (validateForm_student blank_example)) 0 2)
   \<and> \<not> fst (validateForm_teacher blank_example)
   \<and> \<not> marked_invalid (field_at (snd (validateForm_teacher blank_example)) 0 1)
   \<and> fst (validateForm_reg blank_example) = Return JFalse"
proof -
  let ?W = "blank_example"
  have h: "0 \<le> currentTab ?W" "currentTab ?W < int (length (tabs ?W))"
    by (simp_all add: blank_example_def wizard_page_def)
  have t: "nat (currentTab ?W) = 0" and n: "length (inputs (tabs ?W ! 0)) = 3"
    by (simp_all add: blank_example_def wizard_page_def)
  have pl: "radio_names_plain ?W" by code_simp
  have b0: "blank_required (field_at ?W 0 0)" by code_simp
  have b1: "\<not> blank_required (field_at ?W 0 1)" by code_simp
  have r0: "\<not> radio_unchecked ?W (field_at ?W 0 0)" by code_simp
  have r1: "\<not> radio_unchecked ?W (field_at ?W 0 1)" by code_simp
  have r2: "radio_unchecked ?W (field_at ?W 0 2)" by code_simp
  have g2: "name_prop (field_at ?W 0 2) = ''yeargroup''" by code_simp
  have g21: "\<not> in_group (name_prop (field_at ?W 0 2)) (field_at ?W 0 1)" by code_simp
  have g22: "in_group (name_prop (field_at ?W 0 2)) (field_at ?W 0 2)" by code_simp
  have q1: "\<not> required (field_at ?W 0 1)" by code_simp
  have e0: "tag (field_at ?W 0 0) = Input \<and> fvalue (field_at ?W 0 0) = []" by code_simp
  have e0': "required (field_at ?W 0 0)" by code_simp
  note T = validateForm_fails_on_required_empty [OF h, unfolded t n]
  note S = T [THEN conjunct1, THEN mp, OF pl]
  note T1 = S [THEN conjunct1]
  note T2 = S [THEN conjunct2, rule_format]
  note T3 = T [THEN conjunct2, THEN conjunct1]
  note T4 = T [THEN conjunct2, THEN conjunct2, THEN conjunct1, rule_format]
  note T5 = T [THEN conjunct2, THEN conjunct2, THEN conjunct2, THEN conjunct1]
  have z: "(0::nat) < 3" "(1::nat) < 3" "(2::nat) < 3" by simp_all
  have nr: "\<forall>i<3. radio_unchecked ?W (field_at ?W 0 i)
                   \<longrightarrow> \<not> in_group (name_prop (field_at ?W 0 i)) (field_at ?W 0 1)"
  proof (intro allI impI)
    fix i :: nat assume "i < 3" and ru: "radio_unchecked ?W (field_at ?W 0 i)"
    then have "i = 0 \<or> i = 1 \<or> i = 2" by auto
    then show "\<not> in_group (name_prop (field_at ?W 0 i)) (field_at ?W 0 1)"
      using ru r0 r1 g21 by blast
  qed
  have c1: "\<not> fst (validateForm_student ?W)" using T1 b0 z(1) by blast
  have c2: "marked_invalid (field_at (snd (validateForm_student ?W)) 0 0)"
    using T2 [OF z(1)] b0 by blast
  have c3: "\<not> marked_invalid (field_at (snd (validateForm_student ?W)) 0 1)"
    using T2 [OF z(2)] b1 nr by blast
  have c3': "marked_invalid (field_at (snd (validateForm_student ?W)) 0 2)"
    using T2 [OF z(3)] r2 g22 by blast
  have c4: "\<not> fst (validateForm_teacher ?W)" using T3 e0 e0' z(1) by blast
  have c5: "\<not> marked_invalid (field_at (snd (validateForm_teacher ?W)) 0 1)"
    using T4 [OF z(2)] q1 by blast
  have c6: "fst (validateForm_reg ?W) = Return JFalse" using T5 e0 z(1) by blast
  show ?thesis using h pl b0 b1 r2 g2 c1 c2 c3 c3' c4 c5 c6 by blast
qed

text \<open>
  The claim is false of the registration wizard: an optional field left empty makes
  its validation fail and is marked invalid.
\<close>

theorem validateForm_reg_fails_on_optional_empty:
  "\<not> required (field_at (wizard_page [optional_empty]) 0 0)
   \<and> fvalue (field_at (wizard_page [optional_empty]) 0 0) = []
   \<and> fst (validateForm_reg (wizard_page [optional_empty])) = Return JFalse
   \<and> marked_invalid (field_at (snd (validateForm_reg (wizard_page [optional_empty]))) 0 0)"
  by code_simp

section \<open>Radio groups\<close>

text \<open>
  Claim C4, as amended. In the student wizard, with the wizard within its steps and on
  a page whose required radio buttons of the step have plain names (no double quote,
  backslash, line break or NUL, so that the selector built from the name selects the
  \<^verbatim>\<open>input\<close> elements of that name), validation succeeds exactly when every required
  field of the step passes, where a required radio button passes exactly when its named
  group has a checked member. The group is every \<^verbatim>\<open>input\<close> of the document with that
  name, in any step or outside the steps, and any checked member will do; so a required
  radio button whose group has no checked member makes validation fail. The teacher
  wizard has no rule for radio buttons: its validation succeeds exactly when no
  required field has the empty value, whatever is checked.
\<close>

theorem radio_group_validation:
  fixes p :: page
  defines "t \<equiv> nat (currentTab p)"
  defines "n \<equiv> length (inputs (tabs p ! nat (currentTab p)))"
  assumes "0 \<le> currentTab p" and "currentTab p < int (length (tabs p))"
  shows "(radio_names_plain p \<longrightarrow>
            (fst (validateForm_student p)
               \<longleftrightarrow> (\<forall>i<n. required (field_at p t i) \<longrightarrow>
                            (if ftype (field_at p t i) = ''radio''
                             then group_checked p (name_prop (field_at p t i))
                             else fvalue (field_at p t i) \<noteq> [] \<and> js_trim (fvalue (field_at p t i)) \<noteq> [])))
          \<and> (\<forall>nm. group_checked p nm
                     \<longleftrightarrow> (\<exists>r \<in> set (all_fields p). tag r = Input \<and> name_attr r = Some nm \<and> checked r))
          \<and> (\<forall>i<n. required (field_at p t i) \<and> ftype (field_at p t i) = ''radio''
                     \<and> \<not> group_checked p (name_prop (field_at p t i))
                     \<longrightarrow> \<not> fst (validateForm_student p)))
       \<and> (fst (validateForm_teacher p)
            \<longleftrightarrow> (\<forall>i<n. required (field_at p t i) \<longrightarrow> fvalue (field_at p t i) \<noteq> []))"
proof -
  note S = validateForm_student_spec(1) [OF assms(3,4), folded t_def n_def]
  note T = validateForm_teacher_spec(1) [OF assms(3,4), folded t_def n_def]
  have ok: "(\<not> blank_required f \<and> \<not> radio_unchecked p f)
            \<longleftrightarrow> (required f \<longrightarrow> (if ftype f = ''radio'' then group_checked p (name_prop f)
                                 else fvalue f \<noteq> [] \<and> js_trim (fvalue f) \<noteq> []))" for f
    by (auto simp: blank_required_def radio_unchecked_def)
  have s1: "fst (validateForm_student p)
            \<longleftrightarrow> (\<forall>i<n. required (field_at p t i) \<longrightarrow>
                         (if ftype (field_at p t i) = ''radio''
                          then group_checked p (name_prop (field_at p t i))
                          else fvalue (field_at p t i) \<noteq> [] \<and> js_trim (fvalue (field_at p t i)) \<noteq> []))"
    unfolding S ok ..
  have g: "\<forall>nm. group_checked p nm
                  \<longleftrightarrow> (\<exists>r \<in> set (all_fields p). tag r = Input \<and> name_attr r = Some nm \<and> checked r)"
    by (simp add: group_checked_def list_ex_iff in_group_def)
  have s2: "\<forall>i<n. required (field_at p t i) \<and> ftype (field_at p t i) = ''radio''
                  \<and> \<not> group_checked p (name_prop (field_at p t i))
                  \<longrightarrow> \<not> fst (validateForm_student p)"
    unfolding s1 by auto
  have t1: "fst (validateForm_teacher p)
            \<longleftrightarrow> (\<forall>i<n. required (field_at p t i) \<longrightarrow> fvalue (field_at p t i) \<noteq> [])"
    unfolding T by blast
  show ?thesis using s1 g s2 t1 by blast
qed

theorem radio_group_validation_witness:
  "0 \<le> currentTab (wizard_page [radio_field True ''12'' False, radio_field False ''13'' True])
   \<and> currentTab (wizard_page [radio_field True ''12'' False, radio_field False ''13'' True])
        < int (length (tabs (wizard_page [radio_field True ''12'' False, radio_field False ''13'' True])))
   \<and> radio_names_plain (wizard_page [radio_field True ''12'' False, radio_field False ''13'' True])
   \<and> radio_names_plain (wizard_page [radio_field True ''12'' False, radio_field False ''13'' False])
   \<and> required (field_at (wizard_page [radio_field True ''12'' False, radio_field False ''13'' True]) 0 0)
   \<and> ftype (field_at (wizard_page [radio_field True ''12'' False, radio_field False ''13'' True]) 0 0) = ''radio''
   \<and> name_prop (field_at (wizard_page [radio_field True ''12'' False, radio_field False ''13'' True]) 0 0) = ''yeargroup''
   \<and> \<not> checked (field_at (wizard_page [radio_field True ''12'' False, radio_field False ''13'' True]) 0 0)
   \<and> group_checked (wizard_page [radio_field True ''12'' False, radio_field False ''13'' True]) ''yeargroup''
   \<and> fst (validateForm_student (wizard_page [radio_field True ''12'' False, radio_field False ''13'' True]))
   \<and> \<not> group_checked (wizard_page [radio_field True ''12'' False, radio_field False ''13'' False]) ''yeargroup''
   \<and> \<not> fst (validateForm_student (wizard_page [radio_field True ''12'' False, radio_field False ''13'' False]))"
proof -
  let ?A = "wizard_page [radio_field True ''12'' False, radio_field False ''13'' True]"
  let ?B = "wizard_page [radio_field True ''12'' False, radio_field False ''13'' False]"
  have hA: "0 \<le> currentTab ?A" "currentTab ?A < int (length (tabs ?A))"
    and hB: "0 \<le> currentTab ?B" "currentTab ?B < int (length (tabs ?B))"
    by (simp_all add: wizard_page_def)
  have tA: "nat (currentTab ?A) = 0" and nA: "length (inputs (tabs ?A ! 0)) = 2"
    and tB: "nat (currentTab ?B) = 0" and nB: "length (inputs (tabs ?B ! 0)) = 2"
    by (simp_all add: wizard_page_def)
  have a0: "required (field_at ?A 0 0)" "ftype (field_at ?A 0 0) = ''radio''"
           "name_prop (field_at ?A 0 0) = ''yeargroup''" "\<not> checked (field_at ?A 0 0)"
    by code_simp+
  have a1: "\<not> required (field_at ?A 0 1)" by code_simp
  have gA: "group_checked ?A ''yeargroup''" by code_simp
  have b0: "required (field_at ?B 0 0)" "ftype (field_at ?B 0 0) = ''radio''"
           "name_prop (field_at ?B 0 0) = ''yeargroup''"
    by code_simp+
  have gB: "\<not> group_checked ?B ''yeargroup''" by code_simp
  have plA: "radio_names_plain ?A" and plB: "radio_names_plain ?B" by code_simp+
  note TA = radio_group_validation [OF hA, unfolded tA nA, THEN conjunct1, THEN mp, OF plA, THEN conjunct1]
  note TB = radio_group_validation [OF hB, unfolded tB nB, THEN conjunct1, THEN mp, OF plB,
                                    THEN conjunct2, THEN conjunct2, rule_format]
  have z: "(0::nat) < 2" by simp
  have "\<forall>i<2. required (field_at ?A 0 i) \<longrightarrow>
                 (if ftype (field_at ?A 0 i) = ''radio''
                  then group_checked ?A (name_prop (field_at ?A 0 i))
                  else fvalue (field_at ?A 0 i) \<noteq> [] \<and> js_trim (fvalue (field_at ?A 0 i)) \<noteq> [])"
  proof (intro allI impI)
    fix i :: nat assume "i < 2" and rq: "required (field_at ?A 0 i)"
    then have "i = 0 \<or> i = 1" by auto
    then have "i = 0" using rq a1 by blast
    then show "if ftype (field_at ?A 0 i) = ''radio''
                  then group_checked ?A (name_prop (field_at ?A 0 i))
                  else fvalue (field_at ?A 0 i) \<noteq> [] \<and> js_trim (fvalue (field_at ?A 0 i)) \<noteq> []"
      using a0 gA by simp
  qed
  then have c1: "fst (validateForm_student ?A)" using TA by blast
  have c2: "\<not> fst (validateForm_student ?B)"
    using TB [OF z] b0 gB by simp
  show ?thesis using hA plA plB a0 gA c1 gB c2 by blast
qed

text \<open>
  The claim is false of the teacher wizard: a required radio button whose group has no
  checked member passes its validation.
\<close>

theorem validateForm_teacher_ignores_radio_group:
  "required (field_at (wizard_page [radio_field True ''12'' False, radio_field False ''13'' False]) 0 0)
   \<and> ftype (field_at (wizard_page [radio_field True ''12'' False, radio_field False ''13'' False]) 0 0) = ''radio''
   \<and> \<not> group_checked (wizard_page [radio_field True ''12'' False, radio_field False ''13'' False]) ''yeargroup''
   \<and> fst (validateForm_teacher (wizard_page [radio_field True ''12'' False, radio_field False ''13'' False]))"
  by code_simp

section \<open>Marks of earlier attempts\<close>

text \<open>
  Claim C5, as amended. In the student and in the teacher wizard, with the wizard
  within its steps, the marks after validation do not depend on the marks before: a
  field of the step that is marked afterwards fails now (student: it is blank and
  required, or shares its name with a required radio button of the step whose group
  has no checked member; teacher: it is required with the empty value). So when no
  field of the step fails, validation succeeds and leaves no field of the step marked.
  For the student wizard this is stated on pages whose required radio buttons of the
  step have plain names (no double quote, backslash, line break or NUL, so that the
  selector built from the name selects the \<^verbatim>\<open>input\<close> elements of that name). The
  registration wizard never takes a mark away: a field marked before its validation is
  marked after it.
\<close>

theorem validation_resets_marks:
  fixes p :: page
  defines "t \<equiv> nat (currentTab p)"
  defines "n \<equiv> length (inputs (tabs p ! nat (currentTab p)))"
  assumes "0 \<le> currentTab p" and "currentTab p < int (length (tabs p))"
  shows "(radio_names_plain p \<longrightarrow>
            (\<forall>j<n. marked_invalid (field_at (snd (validateForm_student p)) t j)
                    \<longrightarrow> blank_required (field_at p t j)
                        \<or> (\<exists>i<n. radio_unchecked p (field_at p t i)
                                  \<and> in_group (name_prop (field_at p t i)) (field_at p t j)))
          \<and> ((\<forall>i<n. \<not> blank_required (field_at p t i) \<and> \<not> radio_unchecked p (field_at p t i))
               \<longrightarrow> fst (validateForm_student p)
                   \<and> (\<forall>j<n. \<not> marked_invalid (field_at (snd (validateForm_student p)) t j))))
       \<and> (\<forall>j<n. marked_invalid (field_at (snd (validateForm_teacher p)) t j)
                 \<longrightarrow> required (field_at p t j) \<and> fvalue (field_at p t j) = [])
       \<and> ((\<forall>i<n. \<not> (required (field_at p t i) \<and> fvalue (field_at p t i) = []))
            \<longrightarrow> fst (validateForm_teacher p)
                \<and> (\<forall>j<n. \<not> marked_invalid (field_at (snd (validateForm_teacher p)) t j)))
       \<and> (\<forall>j<n. marked_invalid (field_at p t j)
                 \<longrightarrow> marked_invalid (field_at (snd (validateForm_reg p)) t j))"
proof -
  note S = validateForm_student_spec [OF assms(3,4), folded t_def n_def]
  note T = validateForm_teacher_spec [OF assms(3,4), folded t_def n_def]
  note R = validateForm_reg_spec [OF assms(3,4), folded t_def n_def]
  have s1: "\<forall>j<n. marked_invalid (field_at (snd (validateForm_student p)) t j)
                 \<longrightarrow> blank_required (field_at p t j)
                     \<or> (\<exists>i<n. radio_unchecked p (field_at p t i)
                               \<and> in_group (name_prop (field_at p t i)) (field_at p t j))"
    using S(3) by blast
  have s2: "(\<forall>i<n. \<not> blank_required (field_at p t i) \<and> \<not> radio_unchecked p (field_at p t i))
            \<longrightarrow> fst (validateForm_student p)
                \<and> (\<forall>j<n. \<not> marked_invalid (field_at (snd (validateForm_student p)) t j))"
    using S(1) S(3) by blast
  have t1: "\<forall>j<n. marked_invalid (field_at (snd (validateForm_teacher p)) t j)
                 \<longrightarrow> required (field_at p t j) \<and> fvalue (field_at p t j) = []"
    using T(2) by blast
  have t2: "(\<forall>i<n. \<not> (required (field_at p t i) \<and> fvalue (field_at p t i) = []))
            \<longrightarrow> fst (validateForm_teacher p)
                \<and> (\<forall>j<n. \<not> marked_invalid (field_at (snd (validateForm_teacher p)) t j))"
    using T(1) T(2) by blast
  have r1: "\<forall>j<n. marked_invalid (field_at p t j)
                 \<longrightarrow> marked_invalid (field_at (snd (validateForm_reg p)) t j)"
    using R(2) by blast
  show ?thesis using s1 s2 t1 t2 r1 by blast
qed

theorem validation_resets_marks_witness:
  "0 \<le> currentTab marked_example
   \<and> currentTab marked_example < int (length (tabs marked_example))
   \<and> radio_names_plain marked_example
   \<and> marked_invalid (field_at marked_example 0 0)
   \<and> \<not> blank_required (field_at marked_example 0 0)
   \<and> required (field_at marked_example 0 1) \<and> ftype (field_at marked_example 0 1) = ''radio''
   \<and> \<not> radio_unchecked marked_example (field_at marked_example 0 1)
   \<and> fst (validateForm_student marked_example)
   \<and> \<not> marked_invalid (field_at (snd (validateForm_student marked_example)) 0 0)
   \<and> fst (validateForm_teacher marked_example)
   \<and> \<not> marked_invalid (field_at (snd (validateForm_teacher marked_example)) 0 0)
   \<and> marked_invalid (field_at (snd (validateForm_reg marked_example)) 0 0)"
proof -
  let ?E = "marked_example"
  have h: "0 \<le> currentTab ?E" "currentTab ?E < int (length (tabs ?E))"
    by (simp_all add: marked_example_def wizard_page_def)
  have t: "nat (currentTab ?E) = 0" and n: "length (inputs (tabs ?E ! 0)) = 2"
    by (simp_all add: marked_example_def wizard_page_def)
  have pl: "radio_names_plain ?E" by code_simp
  have m: "marked_invalid (field_at ?E 0 0)" by code_simp
  have b0: "\<not> blank_required (field_at ?E 0 0)" by code_simp
  have b1: "\<not> blank_required (field_at ?E 0 1)" by code_simp
  have r0: "\<not> radio_unchecked ?E (field_at ?E 0 0)" by code_simp
  have r1: "\<not> radio_unchecked ?E (field_at ?E 0 1)" by code_simp
  have q1: "required (field_at ?E 0 1)" "ftype (field_at ?E 0 1) = ''radio''" by code_simp+
  have v0: "\<not> (required (field_at ?E 0 0) \<and> fvalue (field_at ?E 0 0) = [])" by code_simp
  have v1: "\<not> (required (field_at ?E 0 1) \<and> fvalue (field_at ?E 0 1) = [])" by code_simp
  note T = validation_resets_marks [OF h, unfolded t n]
  note T2 = T [THEN conjunct1, THEN mp, OF pl, THEN conjunct2]
  note T4 = T [THEN conjunct2, THEN conjunct2, THEN conjunct1]
  note T5 = T [THEN conjunct2, THEN conjunct2, THEN conjunct2, rule_format]
  have z: "(0::nat) < 2" by simp
  have two: "i = 0 \<or> i = 1" if "i < (2::nat)" for i using that by auto
  have ps: "\<forall>i<2. \<not> blank_required (field_at ?E 0 i) \<and> \<not> radio_unchecked ?E (field_at ?E 0 i)"
    using b0 b1 r0 r1 two by blast
  have pt: "\<forall>i<2. \<not> (required (field_at ?E 0 i) \<and> fvalue (field_at ?E 0 i) = [])"
    using v0 v1 two by blast
  have c1: "fst (validateForm_student ?E) \<and> \<not> marked_invalid (field_at (snd (validateForm_student ?E)) 0 0)"
    using T2 ps z by blast
  have c2: "fst (validateForm_teacher ?E) \<and> \<not> marked_invalid (field_at (snd (validateForm_teacher ?E)) 0 0)"
    using T4 pt z by blast
  have c3: "marked_invalid (field_at (snd (validateForm_reg ?E)) 0 0)"
    using T5 [OF z] m by blast
  show ?thesis using h pl m b0 q1 r1 c1 c2 c3 by blast
qed

text \<open>
  The claim is false of the registration wizard: a field marked invalid at an earlier
  attempt and filled since is still marked after a validation that succeeds.
\<close>

theorem validateForm_reg_keeps_old_mark:
  "marked_invalid (field_at (wizard_example ''Alice'' '' invalid'') 0 0)
   \<and> fvalue (field_at (wizard_example ''Alice'' '' invalid'') 0 0) = ''Alice''
   \<and> fst (validateForm_reg (wizard_example ''Alice'' '' invalid'')) = Return JTrue
   \<and> marked_invalid (field_at (snd (validateForm_reg (wizard_example ''Alice'' '' invalid''))) 0 0)"
  by code_simp

section \<open>The finished mark of the step indicator\<close>

text \<open>
  Claim C6, as amended. In the teacher wizard, a validation that succeeds within the
  steps marks the indicator entry of the current step finished, when that entry
  exists. In the registration wizard a validation that returns \<^verbatim>\<open>true\<close> has marked the
  entry of the current step finished (without the entry it throws). The student wizard
  has no finished mark: its validation leaves every indicator entry as it was.
\<close>

theorem validation_marks_step_finished:
  "(0 \<le> currentTab p \<and> currentTab p < int (length (tabs p)) \<and> nat (currentTab p) < length (steps p)
      \<and> fst (validateForm_teacher p)
      \<longrightarrow> has_class (steps (snd (validateForm_teacher p)) ! nat (currentTab p)) ''finish'')
   \<and> (fst (validateForm_reg p) = Return JTrue
      \<longrightarrow> nat (currentTab p) < length (steps p)
          \<and> has_class (steps (snd (validateForm_reg p)) ! nat (currentTab p)) ''finish'')
   \<and> steps (snd (validateForm_student p)) = steps p"
proof -
  have a: "has_class (steps (snd (validateForm_teacher p)) ! nat (currentTab p)) ''finish''"
    if "0 \<le> currentTab p" "currentTab p < int (length (tabs p))" "nat (currentTab p) < length (steps p)"
       "fst (validateForm_teacher p)"
    using validateForm_teacher_spec(3) [OF that(1,2,4,3)] .
  have b: "nat (currentTab p) < length (steps p)
          \<and> has_class (steps (snd (validateForm_reg p)) ! nat (currentTab p)) ''finish''"
    if v: "fst (validateForm_reg p) = Return JTrue"
  proof -
    have "fst (validateForm_reg p) \<noteq> Throw" using v by simp
    then have r: "0 \<le> currentTab p" "currentTab p < int (length (tabs p))"
      using validateForm_reg_in_range by blast+
    show ?thesis using validateForm_reg_spec(3) [OF r v] .
  qed
  show ?thesis using a b steps_validateForm_student by blast
qed

theorem validation_marks_step_finished_witness:
  "0 \<le> currentTab (wizard_example ''Alice'' []) 
   \<and> currentTab (wizard_example ''Alice'' []) < int (length (tabs (wizard_example ''Alice'' [])))
   \<and> nat (currentTab (wizard_example ''Alice'' [])) < length (steps (wizard_example ''Alice'' []))
   \<and> fst (validateForm_teacher (wizard_example ''Alice'' []))
   \<and> fst (validateForm_reg (wizard_example ''Alice'' [])) = Return JTrue
   \<and> has_class (steps (snd (validateForm_teacher (wizard_example ''Alice'' []))) ! 0) ''finish''
   \<and> has_class (steps (snd (validateForm_reg (wizard_example ''Alice'' []))) ! 0) ''finish''"
proof -
  let ?E = "wizard_example ''Alice'' []"
  have h: "0 \<le> currentTab ?E" "currentTab ?E < int (length (tabs ?E))"
          "nat (currentTab ?E) < length (steps ?E)"
    by (simp_all add: wizard_example_def)
  have t: "nat (currentTab ?E) = 0" by (simp add: wizard_example_def)
  have vt: "fst (validateForm_teacher ?E)" by code_simp
  have vr: "fst (validateForm_reg ?E) = Return JTrue" by code_simp
  note T = validation_marks_step_finished [of ?E, unfolded t]
  have c1: "has_class (steps (snd (validateForm_teacher ?E)) ! 0) ''finish''"
    using T h vt t by simp
  have c2: "has_class (steps (snd (validateForm_reg ?E)) ! 0) ''finish''"
    using T vr by blast
  show ?thesis using h vt vr c1 c2 by blast
qed

text \<open>
  The claim is false of the student wizard: its validation succeeds and the indicator
  entry of the step is not marked finished.
\<close>

theorem validateForm_student_marks_no_step:
  "currentTab (wizard_example ''Alice'' []) = 0
   \<and> fst (validateForm_student (wizard_example ''Alice'' []))
   \<and> \<not> has_class (steps (snd (validateForm_student (wizard_example ''Alice'' []))) ! 0) ''finish''"
  by code_simp

section \<open>The step indicator of the teacher wizard\<close>

lemma fixStepIndicator_teacher_steps:
  assumes "0 \<le> n" and "n < int (length (steps p))"
  shows "steps (fixStepIndicator_teacher n p)
         = (map (\<lambda>c. classList_remove c ''active'') (steps p))
             [nat n := classList_add (classList_remove (steps p ! nat n) ''active'') ''active'']"
  using assms by (simp add: fixStepIndicator_teacher_def Let_def nth_opt_def)

lemma fixStepIndicator_teacher_active:
  assumes "0 \<le> n" and "n < int (length (steps p))" and "i < length (steps p)"
  shows "has_class (steps (fixStepIndicator_teacher n p) ! i) ''active'' \<longleftrightarrow> i = nat n"
proof (cases "i = nat n")
  case True
  then show ?thesis
    using assms tok_active by (simp add: fixStepIndicator_teacher_steps has_class_add)
next
  case False
  then show ?thesis
    using assms by (simp add: fixStepIndicator_teacher_steps has_class_remove)
qed

lemma fixStepIndicator_teacher_idem:
  "fixStepIndicator_teacher n (fixStepIndicator_teacher n p) = fixStepIndicator_teacher n p"
proof (cases "0 \<le> n \<and> n < int (length (steps p))")
  case True
  let ?cl = "map (\<lambda>c. classList_remove c ''active'') (steps p)"
  let ?new = "classList_add (classList_remove (steps p ! nat n) ''active'') ''active''"
  have s1: "steps (fixStepIndicator_teacher n p) = ?cl[nat n := ?new]"
    using True by (simp add: fixStepIndicator_teacher_steps)
  have len: "n < int (length (steps (fixStepIndicator_teacher n p)))" using True s1 by simp
  have m: "map (\<lambda>c. classList_remove c ''active'') (?cl[nat n := ?new])
           = ?cl[nat n := classList_remove ?new ''active'']"
    by (simp add: map_update comp_def classList_remove_idem)
  have "steps (fixStepIndicator_teacher n (fixStepIndicator_teacher n p))
        = (?cl[nat n := classList_remove ?new ''active''])
            [nat n := classList_add (classList_remove ((?cl[nat n := ?new]) ! nat n) ''active'') ''active'']"
    using True len fixStepIndicator_teacher_steps [of n "fixStepIndicator_teacher n p"]
    by (simp only: s1 m)
  also have "\<dots> = ?cl[nat n := classList_add (classList_remove ?new ''active'') ''active'']"
  proof -
    have "nat n < length ?cl" using True by (simp add: nat_less_iff)
    then show ?thesis by simp
  qed
  also have "\<dots> = ?cl[nat n := ?new]"
    using tok_active by (simp add: classList_add_remove_add)
  finally have "steps (fixStepIndicator_teacher n (fixStepIndicator_teacher n p))
                = steps (fixStepIndicator_teacher n p)"
    using s1 by simp
  then show ?thesis
    by (simp add: fixStepIndicator_teacher_def Let_def)
next
  case False
  then have a: "nth_opt xs n = None" if "length xs = length (steps p)" for xs :: "string list"
    using that by (auto simp: nth_opt_def)
  have s1: "fixStepIndicator_teacher n p = p\<lparr>steps := map (\<lambda>c. classList_remove c ''active'') (steps p)\<rparr>"
    using a [of "map (\<lambda>c. classList_remove c ''active'') (steps p)"]
    by (simp add: fixStepIndicator_teacher_def Let_def)
  show ?thesis
    unfolding s1
    using a [of "map (\<lambda>c. classList_remove c ''active'') (map (\<lambda>c. classList_remove c ''active'') (steps p))"]
    by (simp add: fixStepIndicator_teacher_def Let_def comp_def classList_remove_idem)
qed

lemma showTab_steps:
  assumes "steps_only fixStep" and "0 \<le> n" and "n < int (length (tabs p))"
  shows "\<exists>q. snd (showTab fixStep n p) = fixStep n q \<and> steps q = steps p"
proof -
  have ne: "tabs p \<noteq> []" using assms(2,3) by auto
  let ?p1 = "p\<lparr>calls := calls p @ [ShowTab n], tabs := map hide_tab (tabs p)\<rparr>"
  let ?p4 = "?p1\<lparr>tabs := (tabs ?p1)[nat n := (tabs ?p1 ! nat n)\<lparr>display := ''block''\<rparr>],
                prevBtn := map_option (\<lambda>_. if n = 0 then ''none'' else ''inline'') (prevBtn p),
                nextBtn := map_option (\<lambda>_. if n = int (length (tabs p)) - 1 then ''Submit'' else ''Next'')
                                      (nextBtn p)\<rparr>"
  have "snd (showTab fixStep n p) = fixStep n ?p4"
    using ne assms(2,3) by (simp add: showTab_def Let_def)
  moreover have "steps ?p4 = steps p" by simp
  ultimately show ?thesis by blast
qed

lemma fixStepIndicator_teacher_cong:
  "steps q = steps p \<Longrightarrow> steps (fixStepIndicator_teacher n q) = steps (fixStepIndicator_teacher n p)"
  by (simp add: fixStepIndicator_teacher_def Let_def)

lemma fixStepIndicator_teacher_length:
  "length (steps (fixStepIndicator_teacher n p)) = length (steps p)"
  by (simp add: fixStepIndicator_teacher_def Let_def split: option.splits)

text \<open>
  The teacher wizard: after \<^verbatim>\<open>showTab(n)\<close>, for a step \<open>n\<close> that has an
  indicator entry, exactly the entry at \<open>n\<close> carries the class \<^verbatim>\<open>active\<close>; the update of
  the indicator is idempotent, and so is the indicator state under a second
  \<^verbatim>\<open>showTab(n)\<close>.
\<close>

theorem showTab_teacher_one_active:
  assumes "0 \<le> n" and "n < int (length (tabs p))" and "n < int (length (steps p))"
  shows "(\<forall>i<length (steps p). has_class (steps (snd (showTab_teacher n p)) ! i) ''active'' \<longleftrightarrow> i = nat n)
       \<and> length (steps (snd (showTab_teacher n p))) = length (steps p)
       \<and> fixStepIndicator_teacher n (fixStepIndicator_teacher n p) = fixStepIndicator_teacher n p
       \<and> steps (snd (showTab_teacher n (snd (showTab_teacher n p)))) = steps (snd (showTab_teacher n p))"
proof -
  have "\<exists>q. snd (showTab_teacher n p) = fixStepIndicator_teacher n q \<and> steps q = steps p"
    unfolding showTab_teacher_def by (rule showTab_steps [OF steps_only_teacher assms(1,2)])
  then obtain q where q: "snd (showTab_teacher n p) = fixStepIndicator_teacher n q" "steps q = steps p"
    by (elim exE conjE)
  have st: "steps (snd (showTab_teacher n p)) = steps (fixStepIndicator_teacher n p)"
    unfolding q(1) using q(2) by (rule fixStepIndicator_teacher_cong)
  have "length (tabs (snd (showTab fixStepIndicator_teacher n p))) = length (tabs p)"
    by (rule showTab_nav(3) [OF steps_only_teacher])
  then have l2: "n < int (length (tabs (snd (showTab_teacher n p))))"
    using assms(2) by (simp add: showTab_teacher_def)
  have "\<exists>q'. snd (showTab_teacher n (snd (showTab_teacher n p))) = fixStepIndicator_teacher n q'
              \<and> steps q' = steps (snd (showTab_teacher n p))"
    unfolding showTab_teacher_def
    by (rule showTab_steps [OF steps_only_teacher assms(1) l2 [unfolded showTab_teacher_def]])
  then obtain q' where q': "snd (showTab_teacher n (snd (showTab_teacher n p))) = fixStepIndicator_teacher n q'"
                      "steps q' = steps (snd (showTab_teacher n p))"
    by (elim exE conjE)
  have "steps (fixStepIndicator_teacher n q') = steps (fixStepIndicator_teacher n (fixStepIndicator_teacher n p))"
    by (rule fixStepIndicator_teacher_cong) (simp add: q'(2) st)
  then have twice: "steps (snd (showTab_teacher n (snd (showTab_teacher n p)))) = steps (snd (showTab_teacher n p))"
    using q'(1) st by (simp add: fixStepIndicator_teacher_idem)
  have one: "\<forall>i<length (steps p). has_class (steps (snd (showTab_teacher n p)) ! i) ''active'' \<longleftrightarrow> i = nat n"
    unfolding st using fixStepIndicator_teacher_active [OF assms(1,3)] by blast
  show ?thesis
    using one twice st by (simp add: fixStepIndicator_teacher_length fixStepIndicator_teacher_idem)
qed

section \<open>The step indicator of the student wizard\<close>

lemma split_ws_aux_sublist:
  "t \<in> set (split_ws_aux cur s) \<Longrightarrow> sublist t (cur @ s)"
proof (induction s arbitrary: cur)
  case Nil
  then show ?case by (simp split: if_splits)
next
  case (Cons a s)
  show ?case
  proof (cases "ascii_ws a")
    case True
    with Cons.prems have "t = cur \<or> t \<in> set (split_ws_aux [] s)"
      by (simp split: if_splits)
    then show ?thesis
    proof
      assume "t = cur"
      then show ?thesis by simp
    next
      assume "t \<in> set (split_ws_aux [] s)"
      then have "sublist t s" using Cons.IH [of "[]"] by simp
      then obtain ps ss where "s = ps @ t @ ss" by (auto simp: sublist_def)
      then have "cur @ a # s = (cur @ [a] @ ps) @ t @ ss" by simp
      then show ?thesis unfolding sublist_def by blast
    qed
  next
    case False
    with Cons.prems have "t \<in> set (split_ws_aux (cur @ [a]) s)" by simp
    then show ?thesis using Cons.IH [of "cur @ [a]"] by simp
  qed
qed

lemma has_class_sublist: "has_class c tok \<Longrightarrow> sublist tok c"
  using split_ws_aux_sublist [of tok "[]" c] by (simp add: has_class_def split_ws_def)

lemma replace_first_absent:
  "pat \<noteq> [] \<Longrightarrow> \<not> sublist pat s \<Longrightarrow> replace_first pat rep s = s"
proof (induction s)
  case Nil
  then show ?case by simp
next
  case (Cons c cs)
  have "\<not> prefix pat (c # cs)" using Cons.prems(2) by (auto simp: prefix_def sublist_def) (metis append_Nil)
  moreover have "\<not> sublist pat cs" using Cons.prems(2) by (simp add: sublist_Cons_right)
  ultimately show ?case using Cons by simp
qed

lemma sublist_space_active: "sublist '' active'' s \<Longrightarrow> sublist ''active'' s"
proof -
  assume "sublist '' active'' s"
  then obtain ps ss where "s = ps @ '' active'' @ ss" by (auto simp: sublist_def)
  then have "s = (ps @ '' '') @ ''active'' @ ss" by simp
  then show ?thesis unfolding sublist_def by blast
qed

lemma replace_first_appended:
  "\<not> sublist ''active'' r \<Longrightarrow> replace_first '' active'' [] (r @ '' active'') = r"
proof (induction r)
  case Nil
  show ?case by simp
next
  case (Cons c cs)
  have np: "\<not> prefix '' active'' ((c # cs) @ '' active'')"
  proof
    assume "prefix '' active'' ((c # cs) @ '' active'')"
    then consider "prefix '' active'' (c # cs)"
      | us where "'' active'' = (c # cs) @ us" "prefix us '' active''"
      unfolding prefix_append by blast
    then show False
    proof cases
      case 1
      then have "sublist '' active'' (c # cs)" by (auto simp: prefix_def sublist_def)
      then show False using Cons.prems sublist_space_active by blast
    next
      case 2
      then have cs: "''active'' = cs @ us" by simp
      show False
      proof (cases us)
        case Nil
        then have "c # cs = '' active''" using 2(1) by simp
        then have "sublist ''active'' (c # cs)" by (simp add: sublist_Cons_right)
        then show False using Cons.prems by blast
      next
        case (Cons u us')
        then have "u = CHR '' ''" using 2(2) by simp
        then have "CHR '' '' \<in> set (cs @ us)" using Cons by simp
        then show False unfolding cs [symmetric] by simp
      qed
    qed
  qed
  have "\<not> sublist ''active'' cs" using Cons.prems by (simp add: sublist_Cons_right)
  then have ih: "replace_first '' active'' [] (cs @ '' active'') = cs" by (rule Cons.IH)
  have np': "\<not> prefix '' active'' (c # (cs @ '' active''))"
    using np by (metis append_Cons)
  have "replace_first '' active'' [] (c # (cs @ '' active'')) = c # replace_first '' active'' [] (cs @ '' active'')"
    by (simp only: replace_first.simps np' if_False)
  then show ?case by (simp only: append_Cons ih)
qed

text \<open>
  An entry that loses the class \<^verbatim>\<open>step\<close> leaves the collection, and the loop passes
  over the entry behind it, which keeps its \<^verbatim>\<open>active\<close>.
\<close>

lemma clear_active_leaves:
  "clear_active [''step activeX'', ''step active'', ''step active''] = [''step active'', ''step'']"
  by code_simp

text \<open>Where every entry keeps the class, the loop clears each entry in turn.\<close>

lemma clear_active_stable:
  "\<forall>c \<in> set cs. has_class (replace_first '' active'' [] c) ''step''
   \<Longrightarrow> clear_active cs = map (replace_first '' active'' []) cs"
  by (induction cs rule: clear_active.induct) (simp_all add: Let_def del: replace_first.simps)

lemma fixStepIndicator_student_steps:
  assumes "0 \<le> n" and "n < int (length (steps p))"
      and "\<forall>c \<in> set (steps p). clean_indicator c"
  shows "steps (fixStepIndicator_student n p)
         = (map (replace_first '' active'' []) (steps p))
             [nat n := replace_first '' active'' [] (steps p ! nat n) @ '' active'']"
proof -
  have "clear_active (steps p) = map (replace_first '' active'' []) (steps p)"
    using assms(3) by (intro clear_active_stable) (simp add: clean_indicator_def)
  then show ?thesis
    using assms(1,2) by (simp add: fixStepIndicator_student_def Let_def nth_opt_def)
qed

lemma fixStepIndicator_student_cong:
  "steps q = steps p \<Longrightarrow> steps (fixStepIndicator_student n q) = steps (fixStepIndicator_student n p)"
  by (simp add: fixStepIndicator_student_def Let_def)

lemma clean_cleared: "clean_indicator c \<Longrightarrow> replace_first '' active'' [] (replace_first '' active'' [] c) = replace_first '' active'' [] c"
  unfolding clean_indicator_def
  using replace_first_absent [of "'' active''"] sublist_space_active by blast

lemma fixStepIndicator_student_clean:
  assumes r: "0 \<le> n" "n < int (length (steps p))" and cl: "\<forall>c \<in> set (steps p). clean_indicator c"
  shows "\<forall>i<length (steps p). has_class (steps (fixStepIndicator_student n p) ! i) ''active'' \<longleftrightarrow> i = nat n"
    and "steps (fixStepIndicator_student n (fixStepIndicator_student n p)) = steps (fixStepIndicator_student n p)"
    and "\<forall>c \<in> set (steps (fixStepIndicator_student n p)). clean_indicator c"
proof -
  let ?rf = "replace_first '' active'' []"
  let ?S = "(map ?rf (steps p))[nat n := ?rf (steps p ! nat n) @ '' active'']"
  have S: "steps (fixStepIndicator_student n p) = ?S" by (rule fixStepIndicator_student_steps [OF r cl])
  have st: "has_class (?rf (steps p ! i)) ''step''" if "i < length (steps p)" for i
    using cl that by (simp add: clean_indicator_def)
  have nl: "nat n < length (steps p)" using r by (simp add: nat_less_iff)
  have no: "\<not> sublist ''active'' (?rf (steps p ! i))" if "i < length (steps p)" for i
    using cl that by (simp add: clean_indicator_def)
  have entry: "?S ! i = (if i = nat n then ?rf (steps p ! nat n) @ '' active'' else ?rf (steps p ! i))"
    if "i < length (steps p)" for i
    using that by (simp add: nth_list_update)
  have rf_entry: "?rf (?S ! i) = ?rf (steps p ! i)" if i: "i < length (steps p)" for i
  proof (cases "i = nat n")
    case True
    then show ?thesis using entry [OF i] replace_first_appended [OF no [OF nl]] by simp
  next
    case False
    have "?rf (?rf (steps p ! i)) = ?rf (steps p ! i)"
      using cl i by (intro clean_cleared) simp
    then show ?thesis using entry [OF i] False by simp
  qed
  show "\<forall>i<length (steps p). has_class (steps (fixStepIndicator_student n p) ! i) ''active'' \<longleftrightarrow> i = nat n"
  proof (intro allI impI)
    fix i assume i: "i < length (steps p)"
    show "has_class (steps (fixStepIndicator_student n p) ! i) ''active'' \<longleftrightarrow> i = nat n"
    proof (cases "i = nat n")
      case True
      have "has_class (?rf (steps p ! nat n) @ CHR '' '' # ''active'') ''active''"
        using tok_active by (simp add: has_class_append)
      then show ?thesis using True entry [OF i] S by simp
    next
      case False
      have "\<not> has_class (?rf (steps p ! i)) ''active''"
        using no [OF i] has_class_sublist by blast
      then show ?thesis using False entry [OF i] S by simp
    qed
  qed
  have map_rf: "map ?rf ?S = map ?rf (steps p)"
    by (rule nth_equalityI) (simp_all add: rf_entry del: replace_first.simps)
  have len: "n < int (length (steps (fixStepIndicator_student n p)))" using r S by simp
  have inv: "\<forall>c \<in> set (steps (fixStepIndicator_student n p)). clean_indicator c"
  proof
    fix c assume "c \<in> set (steps (fixStepIndicator_student n p))"
    then obtain i where i: "i < length (steps p)" and c: "c = ?S ! i"
      unfolding S by (metis in_set_conv_nth length_list_update length_map)
    show "clean_indicator c"
      unfolding clean_indicator_def c rf_entry [OF i] using st [OF i] no [OF i] by (rule conjI)
  qed
  have "steps (fixStepIndicator_student n (fixStepIndicator_student n p))
        = (map ?rf ?S)[nat n := ?rf (?S ! nat n) @ '' active'']"
    using fixStepIndicator_student_steps [OF r(1) len inv] S by (simp only:)
  also have "\<dots> = ?S" using map_rf rf_entry [OF nl] by (simp only:)
  finally show "steps (fixStepIndicator_student n (fixStepIndicator_student n p)) = steps (fixStepIndicator_student n p)"
    using S by simp
  show "\<forall>c \<in> set (steps (fixStepIndicator_student n p)). clean_indicator c"
    by (rule inv)
qed

lemma clean_indicator_plain:
  assumes "has_class c ''step''" and "\<not> sublist ''active'' c"
  shows "clean_indicator c" and "clean_indicator (c @ '' active'')"
proof -
  have "\<not> sublist '' active'' c" using assms(2) sublist_space_active by blast
  then have "replace_first '' active'' [] c = c" by (intro replace_first_absent) simp_all
  then show "clean_indicator c" using assms by (simp add: clean_indicator_def)
  show "clean_indicator (c @ '' active'')"
    unfolding clean_indicator_def replace_first_appended [OF assms(2)] using assms by (rule conjI)
qed

text \<open>
  The student wizard does the same on class strings that are clean: such that, once
  the first \<^verbatim>\<open>" active"\<close> is taken out, the class \<^verbatim>\<open>step\<close> is still there and no
  \<^verbatim>\<open>active\<close> is left. Then no entry leaves the collection and the number of entries
  stays. A class string with the class \<^verbatim>\<open>step\<close> that does not mention \<^verbatim>\<open>active\<close> is
  clean, with or without \<^verbatim>\<open>" active"\<close> appended, and \<^verbatim>\<open>showTab\<close> keeps the class
  strings clean.
\<close>

theorem showTab_student_one_active:
  assumes "0 \<le> n" and "n < int (length (tabs p))" and "n < int (length (steps p))"
      and "\<forall>c \<in> set (steps p). clean_indicator c"
  shows "(\<forall>i<length (steps p). has_class (steps (snd (showTab_student n p)) ! i) ''active'' \<longleftrightarrow> i = nat n)
       \<and> length (steps (snd (showTab_student n p))) = length (steps p)
       \<and> steps (snd (showTab_student n (snd (showTab_student n p)))) = steps (snd (showTab_student n p))
       \<and> (\<forall>c \<in> set (steps (snd (showTab_student n p))). clean_indicator c)
       \<and> (\<forall>c. has_class c ''step'' \<and> \<not> sublist ''active'' c
               \<longrightarrow> clean_indicator c \<and> clean_indicator (c @ '' active''))"
proof -
  have "\<exists>q. snd (showTab_student n p) = fixStepIndicator_student n q \<and> steps q = steps p"
    unfolding showTab_student_def by (rule showTab_steps [OF steps_only_student assms(1,2)])
  then obtain q where q: "snd (showTab_student n p) = fixStepIndicator_student n q" "steps q = steps p"
    by (elim exE conjE)
  have st: "steps (snd (showTab_student n p)) = steps (fixStepIndicator_student n p)"
    unfolding q(1) using q(2) by (rule fixStepIndicator_student_cong)
  have "length (tabs (snd (showTab fixStepIndicator_student n p))) = length (tabs p)"
    by (rule showTab_nav(3) [OF steps_only_student])
  then have l2: "n < int (length (tabs (snd (showTab_student n p))))"
    using assms(2) by (simp add: showTab_student_def)
  have "\<exists>q'. snd (showTab_student n (snd (showTab_student n p))) = fixStepIndicator_student n q'
              \<and> steps q' = steps (snd (showTab_student n p))"
    unfolding showTab_student_def
    by (rule showTab_steps [OF steps_only_student assms(1) l2 [unfolded showTab_student_def]])
  then obtain q' where q': "snd (showTab_student n (snd (showTab_student n p))) = fixStepIndicator_student n q'"
                      "steps q' = steps (snd (showTab_student n p))"
    by (elim exE conjE)
  note C = fixStepIndicator_student_clean [OF assms(1,3,4)]
  have "steps (fixStepIndicator_student n q') = steps (fixStepIndicator_student n (fixStepIndicator_student n p))"
    by (rule fixStepIndicator_student_cong) (simp add: q'(2) st)
  then have twice: "steps (snd (showTab_student n (snd (showTab_student n p)))) = steps (snd (showTab_student n p))"
    using q'(1) st C(2) by simp
  have one: "\<forall>i<length (steps p). has_class (steps (snd (showTab_student n p)) ! i) ''active'' \<longleftrightarrow> i = nat n"
    unfolding st by (rule C(1))
  have inv: "\<forall>c \<in> set (steps (snd (showTab_student n p))). clean_indicator c"
    unfolding st by (rule C(3))
  have len: "length (steps (snd (showTab_student n p))) = length (steps p)"
    unfolding st fixStepIndicator_student_steps [OF assms(1,3,4)] by simp
  show ?thesis using one len twice inv clean_indicator_plain by blast
qed

theorem showTab_student_one_active_witness:
  "(0::int) \<le> 1 \<and> 1 < int (length (tabs (wizard_example [] [])))
   \<and> 1 < int (length (steps (wizard_example [] [])))
   \<and> clean_indicator ''step active'' \<and> clean_indicator ''step''
   \<and> steps (wizard_example [] []) = [''step active'', ''step'', ''step'']
   \<and> \<not> has_class (steps (snd (showTab_student 1 (wizard_example [] []))) ! 0) ''active''
   \<and> has_class (steps (snd (showTab_student 1 (wizard_example [] []))) ! 1) ''active''
   \<and> \<not> has_class (steps (snd (showTab_student 1 (wizard_example [] []))) ! 2) ''active''"
proof -
  let ?E = "wizard_example [] []"
  have h: "(0::int) \<le> 1" "1 < int (length (tabs ?E))" "1 < int (length (steps ?E))"
    by (simp_all add: wizard_example_def)
  have s: "steps ?E = [''step active'', ''step'', ''step'']" by (simp add: wizard_example_def)
  have c: "clean_indicator ''step active''" "clean_indicator ''step''" by code_simp+
  have cl: "\<forall>c \<in> set (steps ?E). clean_indicator c" using c by (simp add: s)
  note T = showTab_student_one_active [OF h cl, THEN conjunct1, rule_format]
  have l: "(0::nat) < length (steps ?E)" "(1::nat) < length (steps ?E)" "(2::nat) < length (steps ?E)"
    by (simp_all add: s)
  have "\<not> has_class (steps (snd (showTab_student 1 ?E)) ! 0) ''active''" using T [OF l(1)] by simp
  moreover have "has_class (steps (snd (showTab_student 1 ?E)) ! 1) ''active''" using T [OF l(2)] by simp
  moreover have "\<not> has_class (steps (snd (showTab_student 1 ?E)) ! 2) ''active''" using T [OF l(3)] by simp
  ultimately show ?thesis using h c s by blast
qed

theorem showTab_teacher_one_active_witness:
  "(0::int) \<le> 1 \<and> 1 < int (length (tabs indicator_example))
   \<and> 1 < int (length (steps indicator_example))
   \<and> steps indicator_example = [''active step'', ''step'', ''step'']
   \<and> \<not> has_class (steps (snd (showTab_teacher 1 indicator_example)) ! 0) ''active''
   \<and> has_class (steps (snd (showTab_teacher 1 indicator_example)) ! 1) ''active''
   \<and> \<not> has_class (steps (snd (showTab_teacher 1 indicator_example)) ! 2) ''active''"
proof -
  let ?E = "indicator_example"
  have h: "(0::int) \<le> 1" "1 < int (length (tabs ?E))" "1 < int (length (steps ?E))"
    by (simp_all add: indicator_example_def wizard_page_def)
  have s: "steps ?E = [''active step'', ''step'', ''step'']"
    by (simp add: indicator_example_def wizard_page_def)
  note T = showTab_teacher_one_active [OF h, THEN conjunct1, rule_format]
  have l: "(0::nat) < length (steps ?E)" "(1::nat) < length (steps ?E)" "(2::nat) < length (steps ?E)"
    by (simp_all add: s)
  have "\<not> has_class (steps (snd (showTab_teacher 1 ?E)) ! 0) ''active''" using T [OF l(1)] by simp
  moreover have "has_class (steps (snd (showTab_teacher 1 ?E)) ! 1) ''active''" using T [OF l(2)] by simp
  moreover have "\<not> has_class (steps (snd (showTab_teacher 1 ?E)) ! 2) ''active''" using T [OF l(3)] by simp
  ultimately show ?thesis using h s by blast
qed

section \<open>The active mark of the step indicator on other class strings\<close>

text \<open>
  Claim C7. After \<^verbatim>\<open>showTab(n)\<close> exactly the indicator entry at \<open>n\<close> should carry the
  class \<^verbatim>\<open>active\<close>. The student wizard clears the class with
  \<^verbatim>\<open>className.replace(' active', '')\<close>, which misses an \<^verbatim>\<open>active\<close> that stands first
  in the class attribute: on the page whose first entry has the class attribute
  \<^verbatim>\<open>"active step"\<close>, \<^verbatim>\<open>showTab(1)\<close> returns normally and leaves the entries 0 and 1
  both active. The teacher wizard, which uses \<^verbatim>\<open>classList\<close>, leaves only entry 1
  active on the same page.
\<close>

theorem showTab_student_leaves_two_active:
  "fst (showTab_student 1 indicator_example) = Return JUndefined
   \<and> steps indicator_example = [''active step'', ''step'', ''step'']
   \<and> steps (snd (showTab_student 1 indicator_example)) = [''active step'', ''step active'', ''step'']
   \<and> has_class (steps (snd (showTab_student 1 indicator_example)) ! 0) ''active''
   \<and> has_class (steps (snd (showTab_student 1 indicator_example)) ! 1) ''active''
   \<and> steps (snd (showTab_teacher 1 indicator_example)) = [''step'', ''step active'', ''step'']"
  by code_simp

section \<open>Properties of the subject dropdowns\<close>

lemma fold_selected_acc:
  "fold (\<lambda>sel acc. case sel of
                      None \<Rightarrow> acc
                    | Some s \<Rightarrow> if svalue s \<noteq> [] then insert (svalue s) acc else acc)
        selects acc
   = acc \<union> {v. v \<noteq> [] \<and> (\<exists>s. Some s \<in> set selects \<and> svalue s = v)}"
proof (induction selects arbitrary: acc)
  case Nil
  show ?case by simp
next
  case (Cons x xs)
  show ?case
  proof (cases x)
    case None
    then show ?thesis using Cons.IH [of acc] by auto
  next
    case (Some s)
    then show ?thesis
      using Cons.IH [of acc] Cons.IH [of "insert (svalue s) acc"] by auto
  qed
qed

lemma selectedSubjects_iff:
  "v \<in> selectedSubjects selects \<longleftrightarrow> v \<noteq> [] \<and> (\<exists>s. Some s \<in> set selects \<and> svalue s = v)"
  by (simp add: selectedSubjects_def fold_selected_acc)

lemma update_option_disabled:
  "disabled (update_option selected cur opt)
     \<longleftrightarrow> ovalue opt \<noteq> [] \<and> ovalue opt \<noteq> cur \<and> ovalue opt \<in> selected"
  by (simp add: update_option_def)

lemma update_option_ovalue: "ovalue (update_option selected cur opt) = ovalue opt"
  by (simp add: update_option_def)

text \<open>
  Claim C9. After \<^verbatim>\<open>updateSubjectOptions\<close>, every dropdown that exists keeps its
  current value and its options' values, and an option of it is disabled if and only
  if its value is non-empty, differs from the dropdown's own current value, and is the
  current value of some dropdown of the group. So the empty option and the dropdown's
  own current selection are enabled.
\<close>

theorem updateSubjectOptions_disabled_iff:
  assumes "i < length selects" and "selects ! i = Some sel" and "j < length (sel_options sel)"
  shows "\<exists>sel'. updateSubjectOptions selects ! i = Some sel'
           \<and> svalue sel' = svalue sel
           \<and> length (sel_options sel') = length (sel_options sel)
           \<and> ovalue (sel_options sel' ! j) = ovalue (sel_options sel ! j)
           \<and> (disabled (sel_options sel' ! j)
                \<longleftrightarrow> ovalue (sel_options sel ! j) \<noteq> []
                    \<and> ovalue (sel_options sel ! j) \<noteq> svalue sel
                    \<and> (\<exists>k < length selects. \<exists>s. selects ! k = Some s
                                                  \<and> svalue s = ovalue (sel_options sel ! j)))
           \<and> (ovalue (sel_options sel ! j) = [] \<longrightarrow> \<not> disabled (sel_options sel' ! j))
           \<and> (ovalue (sel_options sel ! j) = svalue sel \<longrightarrow> \<not> disabled (sel_options sel' ! j))"
proof -
  let ?o = "sel_options sel ! j"
  let ?sel' = "sel\<lparr>sel_options := map (update_option (selectedSubjects selects) (svalue sel)) (sel_options sel)\<rparr>"
  have res: "updateSubjectOptions selects ! i = Some ?sel'"
    using assms(1,2) by (simp add: updateSubjectOptions_def)
  have nth: "sel_options ?sel' ! j = update_option (selectedSubjects selects) (svalue sel) ?o"
    using assms(3) by simp
  have mem: "ovalue ?o \<in> selectedSubjects selects
               \<longleftrightarrow> ovalue ?o \<noteq> [] \<and> (\<exists>k < length selects. \<exists>s. selects ! k = Some s \<and> svalue s = ovalue ?o)"
    unfolding selectedSubjects_iff by (metis in_set_conv_nth)
  have dis: "disabled (sel_options ?sel' ! j)
               \<longleftrightarrow> ovalue ?o \<noteq> [] \<and> ovalue ?o \<noteq> svalue sel
                   \<and> (\<exists>k < length selects. \<exists>s. selects ! k = Some s \<and> svalue s = ovalue ?o)"
    unfolding nth update_option_disabled using mem by blast
  have val: "ovalue (sel_options ?sel' ! j) = ovalue ?o"
    unfolding nth by (rule update_option_ovalue)
  show ?thesis
    apply (rule exI [of _ ?sel'])
    using res dis val by simp
qed

theorem updateSubjectOptions_disabled_iff_witness:
  "(0::nat) < length subjects_example
   \<and> (\<exists>sel. subjects_example ! 0 = Some sel \<and> 2 < length (sel_options sel)
         \<and> (\<exists>sel'. updateSubjectOptions subjects_example ! 0 = Some sel'
               \<and> svalue sel' = ''Maths''
               \<and> ovalue (sel_options sel' ! 2) = ''Physics''
               \<and> disabled (sel_options sel' ! 2)))"
proof -
  let ?sel = "\<lparr>svalue = ''Maths'',
               sel_options = [\<lparr>ovalue = [], disabled = True\<rparr>, \<lparr>ovalue = ''Maths'', disabled = True\<rparr>,
                              \<lparr>ovalue = ''Physics'', disabled = False\<rparr>, \<lparr>ovalue = ''Art'', disabled = True\<rparr>]\<rparr>"
  have h1: "(0::nat) < length subjects_example" by (simp add: subjects_example_def Let_def)
  have h2: "subjects_example ! 0 = Some ?sel" by (simp add: subjects_example_def Let_def)
  have h3: "2 < length (sel_options ?sel)" by simp
  have k: "\<exists>k < length subjects_example. \<exists>s. subjects_example ! k = Some s \<and> svalue s = ''Physics''"
    by (rule exI [of _ 1]) (simp add: subjects_example_def Let_def)
  from updateSubjectOptions_disabled_iff [OF h1 h2 h3] k
  have "\<exists>sel'. updateSubjectOptions subjects_example ! 0 = Some sel'
               \<and> svalue sel' = ''Maths''
               \<and> ovalue (sel_options sel' ! 2) = ''Physics''
               \<and> disabled (sel_options sel' ! 2)"
    by simp blast
  with h1 h2 h3 show ?thesis by blast
qed

section \<open>Properties of the date-of-birth check\<close>

text \<open>
  Claim C10. \<^verbatim>\<open>validateDateOfBirth\<close> returns \<^verbatim>\<open>true\<close> and leaves everything as it
  was when the \<^verbatim>\<open>dob\<close> input or a checked \<^verbatim>\<open>yeargroup\<close> radio is missing. When both
  are there, it finishes without a \<^verbatim>\<open>TypeError\<close> exactly when the year group parses to
  12 or 13. For these two year groups it returns \<^verbatim>\<open>false\<close>, clears the input and shows
  one alert exactly when the date is valid and the age computed from it is below 16 or
  above 17 (Year 12), below 17 or above 18 (Year 13); otherwise it returns \<^verbatim>\<open>true\<close> and
  changes nothing (also for an invalid date, whose age is \<^verbatim>\<open>NaN\<close> and compares false).
\<close>

theorem validateDateOfBirth_spec:
  fixes parse_date :: "string \<Rightarrow> ymd option" and parse_int :: "string \<Rightarrow> int option"
  defines "run \<equiv> validateDateOfBirth parse_date parse_int"
  shows "(dob_value d = None \<or> yeargroup_checked d = None \<longrightarrow> run today d = (Return JTrue, d))
       \<and> (dob_value d = Some v \<and> yeargroup_checked d = Some y \<longrightarrow>
            (fst (run today d) \<noteq> Throw \<longleftrightarrow> parse_int y = Some 12 \<or> parse_int y = Some 13)
          \<and> (\<forall>yg mn mx. parse_int y = Some yg \<and> (yg, mn, mx) \<in> {(12, 16, 17), (13, 17, 18)} \<longrightarrow>
               (parse_date v = None \<longrightarrow> run today d = (Return JTrue, d))
             \<and> (\<forall>b. parse_date v = Some b \<longrightarrow>
                   run today d
                   = (if compute_age today b < mn \<or> compute_age today b > mx
                      then (Return JFalse,
                            d\<lparr>dob_value := Some [],
                              alerts := alerts d @ [(Some yg, mn, mx, compute_age today b)]\<rparr>)
                      else (Return JTrue, d)))))"
  unfolding run_def
  by (auto simp: validateDateOfBirth_def validAges_def Let_def split: option.splits)

theorem validateDateOfBirth_spec_witness:
  "dob_value dob_example = Some ''2012-03-04''
   \<and> yeargroup_checked dob_example = Some ''12''
   \<and> parse_int_example ''12'' = Some 12
   \<and> parse_date_example ''2012-03-04'' = Some (2012, 2, 4)
   \<and> compute_age (2026, 10, 3) (2012, 2, 4) = 14
   \<and> validateDateOfBirth parse_date_example parse_int_example (2026, 10, 3) dob_example
       = (Return JFalse,
          \<lparr>dob_value = Some [], yeargroup_checked = Some ''12'', alerts = [(Some 12, 16, 17, 14)]\<rparr>)"
proof -
  have d: "dob_value dob_example = Some ''2012-03-04''" "yeargroup_checked dob_example = Some ''12''"
    by (simp_all add: dob_example_def)
  have pi: "parse_int_example ''12'' = Some 12" by (simp add: parse_int_example_def)
  have pd: "parse_date_example ''2012-03-04'' = Some (2012, 2, 4)" by (simp add: parse_date_example_def)
  have age: "compute_age (2026, 10, 3) (2012, 2, 4) = 14" by (simp add: compute_age_def)
  have "validateDateOfBirth parse_date_example parse_int_example (2026, 10, 3) dob_example
        = (Return JFalse,
           dob_example\<lparr>dob_value := Some [], alerts := alerts dob_example @ [(Some 12, 16, 17, 14)]\<rparr>)"
    using validateDateOfBirth_spec [where d = dob_example and today = "(2026, 10, 3)"
                                      and parse_date = parse_date_example and parse_int = parse_int_example
                                      and v = "''2012-03-04''" and y = "''12''"]
          d pi pd age
    by simp
  then show ?thesis using d pi pd age by (simp add: dob_example_def)
qed

end
